theory Spec2Isabelle
  imports
    Main
    "HOL-Library.List_Lexorder"
    "HOL-Library.Sublist"
    "HOL-Library.Multiset"
begin

section \<open>Strings\<close>

text \<open>
  A string of the language is a sequence of UTF-16 code units, modelled as a list of
  natural numbers (a code unit is a number below 65536). Strings are compared code unit
  by code unit, a proper prefix first, as the operator \<open><\<close> of the language does; this is
  the order of \<^typ>\<open>nat list\<close>. A literal of the program is written \<open>js ''...''\<close>.
\<close>

type_synonym jsstring = "nat list"

definition js :: "string \<Rightarrow> jsstring" where
  "js s = map of_char s"

text \<open>
  \<open>toLowerCase\<close> and \<open>toUpperCase\<close> follow the case tables of Unicode, which are part of the
  platform and not of the program. On a string of ASCII code units they map the 26
  letters, one code unit to one, and leave every other code unit as it is; this much is
  written out. What they return on a string with a code unit above 127 is a parameter
  (\<open>lower_tables\<close>, \<open>upper_tables\<close>), so every theorem holds whatever the tables say, also
  where a conversion changes the length of a string.
\<close>

record unicode =
  lower_tables :: "jsstring \<Rightarrow> jsstring"
  upper_tables :: "jsstring \<Rightarrow> jsstring"

definition is_ascii :: "jsstring \<Rightarrow> bool" where
  "is_ascii s \<longleftrightarrow> list_all (\<lambda>c. c < 128) s"

definition ascii_lower :: "nat \<Rightarrow> nat" where
  "ascii_lower c = (if 65 \<le> c \<and> c \<le> 90 then c + 32 else c)"

definition ascii_upper :: "nat \<Rightarrow> nat" where
  "ascii_upper c = (if 97 \<le> c \<and> c \<le> 122 then c - 32 else c)"

definition toLowerCase :: "unicode \<Rightarrow> jsstring \<Rightarrow> jsstring" where
  "toLowerCase U s = (if is_ascii s then map ascii_lower s else lower_tables U s)"

definition toUpperCase :: "unicode \<Rightarrow> jsstring \<Rightarrow> jsstring" where
  "toUpperCase U s = (if is_ascii s then map ascii_upper s else upper_tables U s)"

text \<open>
  The case tables that leave every string with a code unit above 127 as it is: one value
  of the parameter, used where a theorem is applied to a concrete input.
\<close>

definition ascii_only :: unicode where
  "ascii_only = \<lparr> lower_tables = (\<lambda>s. s), upper_tables = (\<lambda>s. s) \<rparr>"

text \<open>
  The code units \<open>trim\<close> removes, the white space and line terminators of the language:
  U+0009 to U+000D, U+0020, U+00A0, U+1680, U+2000 to U+200A, U+2028, U+2029, U+202F,
  U+205F, U+3000 and U+FEFF.
\<close>

definition js_space :: "nat \<Rightarrow> bool" where
  "js_space c \<longleftrightarrow>
     (9 \<le> c \<and> c \<le> 13) \<or> c = 32 \<or> c = 160 \<or> c = 5760 \<or> (8192 \<le> c \<and> c \<le> 8202) \<or>
     c = 8232 \<or> c = 8233 \<or> c = 8239 \<or> c = 8287 \<or> c = 12288 \<or> c = 65279"

definition trim :: "jsstring \<Rightarrow> jsstring" where
  "trim s = rev (dropWhile js_space (rev (dropWhile js_space s)))"

text \<open>\<open>s.includes(needle)\<close>: the needle occurs in \<open>s\<close> as a contiguous piece.\<close>

definition includes_str :: "jsstring \<Rightarrow> jsstring \<Rightarrow> bool" where
  "includes_str s needle \<longleftrightarrow> sublist needle s"

text \<open>\<open>s.charAt(0)\<close>: the first code unit as a string, the empty string when there is none.\<close>

definition charAt0 :: "jsstring \<Rightarrow> jsstring" where
  "charAt0 s = take 1 s"

text \<open>The decimal text of an array index, as a template literal prints it.\<close>

fun String_nat :: "nat \<Rightarrow> jsstring" where
  "String_nat n = (if n < 10 then [48 + n] else String_nat (n div 10) @ [48 + n mod 10])"

declare String_nat.simps [simp del]

subsection \<open>slugify and stableId\<close>

text \<open>The character class \<open>[a-z0-9]\<close>, and the hyphen.\<close>

definition alnum_lower :: "nat \<Rightarrow> bool" where
  "alnum_lower c \<longleftrightarrow> (97 \<le> c \<and> c \<le> 122) \<or> (48 \<le> c \<and> c \<le> 57)"

definition hyphen :: nat where
  "hyphen = 45"

text \<open>
  \<open>s.replace(/[^a-z0-9]+/g, '-')\<close>: scanning from the left, a code unit of the class is
  copied, and at any other code unit the longest run of such code units is consumed and
  one hyphen is written for it.
\<close>

function replace_runs :: "jsstring \<Rightarrow> jsstring" where
  "replace_runs [] = []"
| "replace_runs (c # cs) =
     (if alnum_lower c then c # replace_runs cs
      else hyphen # replace_runs (dropWhile (\<lambda>d. \<not> alnum_lower d) cs))"
  by pat_completeness auto
termination
  by (relation "measure length") (auto simp: le_imp_less_Suc length_dropWhile_le)

text \<open>
  \<open>s.replace(/(^-|-$)/g, '')\<close>: a hyphen at position 0 is removed, and then a hyphen
  that is the last code unit of the input (and was not the one already removed) is
  removed; no other position can match.
\<close>

definition strip_edge_hyphens :: "jsstring \<Rightarrow> jsstring" where
  "strip_edge_hyphens s =
     (let s1 = (case s of [] \<Rightarrow> [] | c # cs \<Rightarrow> if c = hyphen then cs else c # cs)
      in if s1 \<noteq> [] \<and> last s1 = hyphen then butlast s1 else s1)"

definition slugify :: "unicode \<Rightarrow> jsstring \<Rightarrow> jsstring" where
  "slugify U name = strip_edge_hyphens (replace_runs (toLowerCase U name))"

section \<open>Untyped payloads\<close>

text \<open>
  The values \<open>JSON.parse\<close> produces, and \<open>undefined\<close> for an absent property. A number is
  represented by the text \<open>Number.prototype.toString\<close> prints for it: besides its
  truthiness, that text is all this program observes of a number, so floating point stays
  outside the model (\<open>0\<close> and \<open>-0\<close> both print as \<open>0\<close>). An object is the association list of
  its own properties, read with \<^const>\<open>map_of\<close>. No payload value is callable.
\<close>

datatype jsval =
    JUndef
  | JNull
  | JBool bool
  | JNum jsstring
  | JStr jsstring
  | JArr "jsval list"
  | JObj "(jsstring \<times> jsval) list"

datatype exn = NetworkError | TypeError

text \<open>
  \<open>r?.k\<close> for the property names this program reads (none of them is a member of the
  prototypes of strings, numbers, booleans, arrays or plain objects): an own property of an
  object, \<open>undefined\<close> on everything else, \<open>null\<close> and \<open>undefined\<close> included.
\<close>

fun opt_get :: "jsval \<Rightarrow> jsstring \<Rightarrow> jsval" where
  "opt_get (JObj kvs) k = (case map_of kvs k of None \<Rightarrow> JUndef | Some v \<Rightarrow> v)"
| "opt_get JUndef k = JUndef"
| "opt_get JNull k = JUndef"
| "opt_get (JBool b) k = JUndef"
| "opt_get (JNum n) k = JUndef"
| "opt_get (JStr s) k = JUndef"
| "opt_get (JArr xs) k = JUndef"

definition nullish :: "jsval \<Rightarrow> bool" where
  "nullish v \<longleftrightarrow> v = JUndef \<or> v = JNull"

text \<open>\<open>a ?? b\<close>\<close>

definition nc :: "jsval \<Rightarrow> jsval \<Rightarrow> jsval" where
  "nc a b = (if nullish a then b else a)"

fun truthy :: "jsval \<Rightarrow> bool" where
  "truthy JUndef = False"
| "truthy JNull = False"
| "truthy (JBool b) = b"
| "truthy (JNum n) = (n \<noteq> js ''0'' \<and> n \<noteq> js ''NaN'')"
| "truthy (JStr s) = (s \<noteq> [])"
| "truthy (JArr xs) = True"
| "truthy (JObj kvs) = True"

text \<open>
  \<open>Array.prototype.join\<close> over the elements' texts, the first exception of an element
  propagating.
\<close>

fun join_comma :: "(exn + jsstring) list \<Rightarrow> exn + jsstring" where
  "join_comma [] = Inr []"
| "join_comma [x] = x"
| "join_comma (x # y # ys) =
     (case x of
        Inl e \<Rightarrow> Inl e
      | Inr a \<Rightarrow> (case join_comma (y # ys) of Inl e \<Rightarrow> Inl e | Inr b \<Rightarrow> Inr (a @ js '','' @ b)))"

text \<open>
  \<open>String(v)\<close>. An array prints its elements joined by commas, \<open>null\<close> and \<open>undefined\<close>
  elements as the empty text. A plain object prints as \<open>[object Object]\<close> through
  \<open>Object.prototype.toString\<close>, unless it has an own property \<open>toString\<close>: a payload value is
  not callable, \<open>Object.prototype.valueOf\<close> (or an own \<open>valueOf\<close>) gives no primitive, and
  the conversion raises a TypeError.
\<close>

fun String_js :: "jsval \<Rightarrow> exn + jsstring" where
  "String_js JUndef = Inr (js ''undefined'')"
| "String_js JNull = Inr (js ''null'')"
| "String_js (JBool b) = Inr (if b then js ''true'' else js ''false'')"
| "String_js (JNum n) = Inr n"
| "String_js (JStr s) = Inr s"
| "String_js (JArr xs) =
     join_comma (map (\<lambda>x. if x = JUndef \<or> x = JNull then Inr [] else String_js x) xs)"
| "String_js (JObj kvs) =
     (if js ''toString'' \<in> fst ` set kvs then Inl TypeError else Inr (js ''[object Object]''))"

section \<open>The canonical record\<close>

text \<open>
  The type \<open>Bean\<close>. Its \<open>id\<close> and \<open>name\<close> are strings. The four optional fields are declared
  \<open>string | undefined\<close>, but \<open>normalizeOne\<close> stores whatever the payload holds, so they are
  payload values here; \<^term>\<open>JStr s\<close> is a string and \<^term>\<open>JUndef\<close> an absent field.
\<close>

record Bean =
  b_id :: jsstring
  b_name :: jsstring
  b_description :: jsval
  b_imageUrl :: jsval
  b_group :: jsval
  b_color :: jsval

definition normalizeOne :: "jsval \<Rightarrow> exn + Bean" where
  "normalizeOne r =
     (case String_js (nc (opt_get r (js ''id'')) (nc (opt_get r (js ''_id''))
            (nc (opt_get r (js ''beanId'')) (nc (opt_get r (js ''Id''))
            (nc (opt_get r (js ''ID'')) (JStr (js ''''))))))) of
        Inl e \<Rightarrow> Inl e
      | Inr i \<Rightarrow>
     (case String_js (nc (opt_get r (js ''name'')) (nc (opt_get r (js ''flavor''))
            (nc (opt_get r (js ''title'')) (JStr (js ''Unknown''))))) of
        Inl e \<Rightarrow> Inl e
      | Inr n \<Rightarrow>
        Inr \<lparr> b_id = i, b_name = n,
              b_description = nc (opt_get r (js ''description'')) (nc (opt_get r (js ''desc''))
                 (nc (opt_get r (js ''about'')) (JStr (js '''')))),
              b_imageUrl = nc (opt_get r (js ''imageUrl'')) (nc (opt_get r (js ''image''))
                 (nc (opt_get r (js ''img'')) (nc (opt_get r (js ''photoUrl''))
                 (nc (opt_get r (js ''thumbnail'')) (JStr (js '''')))))),
              b_group = nc (opt_get r (js ''group'')) (nc (opt_get r (js ''category''))
                 (nc (opt_get r (js ''type'')) (nc (opt_get r (js ''family'')) (JStr (js ''''))))),
              b_color = nc (opt_get r (js ''color'')) (nc (opt_get r (js ''hexColor''))
                 (nc (opt_get r (js ''hex'')) (JStr (js '''')))) \<rparr>))"

text \<open>
  \<open>stableId\<close>: \<open>b.id\<close> is a string, so \<open>String(b.id)\<close> is \<open>b.id\<close>, and the test
  \<open>b.id && String(b.id).trim()\<close> holds when the id and its trimmed form are non-empty.
\<close>

definition stableId :: "unicode \<Rightarrow> Bean \<Rightarrow> nat \<Rightarrow> jsstring" where
  "stableId U b i =
     (if b_id b \<noteq> [] \<and> trim (b_id b) \<noteq> [] then b_id b
      else js ''name-'' @ slugify U (b_name b) @ js ''-'' @ String_nat i)"

text \<open>\<open>list.map((b, i) => stableId(b, i))\<close>\<close>

definition stableIds :: "unicode \<Rightarrow> Bean list \<Rightarrow> jsstring list" where
  "stableIds U bs = map (\<lambda>(i, b). stableId U b i) (enumerate 0 bs)"

section \<open>The source fetcher\<close>

text \<open>
  An HTTP call is modelled by its outcome, \<^term>\<open>Inl NetworkError\<close> for a failed request
  (unreachable host, timeout, status outside 2xx) and \<^term>\<open>Inr data\<close> for the parsed body
  of a response. A call that the code does not reach does not read its outcome.
\<close>

type_synonym response = "exn + jsval"

text \<open>\<open>Array.isArray(data) ? data : (data as any)?.data ?? []\<close>\<close>

definition unwrap :: "jsval \<Rightarrow> jsval" where
  "unwrap data = (case data of JArr xs \<Rightarrow> JArr xs | _ \<Rightarrow> nc (opt_get data (js ''data'')) (JArr []))"

text \<open>A callback applied to the elements from left to right, stopping at the first exception.\<close>

fun traverse :: "('a \<Rightarrow> exn + 'b) \<Rightarrow> 'a list \<Rightarrow> exn + 'b list" where
  "traverse f [] = Inr []"
| "traverse f (x # xs) =
     (case f x of
        Inl e \<Rightarrow> Inl e
      | Inr y \<Rightarrow> (case traverse f xs of Inl e \<Rightarrow> Inl e | Inr ys \<Rightarrow> Inr (y # ys)))"

text \<open>
  \<open>list.map(f)\<close> for a \<open>list\<close> that is only typed as an array: on anything but an array
  \<open>map\<close> is not a function, a TypeError (\<open>null\<close> and \<open>undefined\<close> do not reach a call site,
  each of them follows \<open>?? []\<close>).
\<close>

definition array_map :: "(jsval \<Rightarrow> exn + 'b) \<Rightarrow> jsval \<Rightarrow> exn + 'b list" where
  "array_map f v = (case v of JArr xs \<Rightarrow> traverse f xs | _ \<Rightarrow> Inl TypeError)"

text \<open>\<open>b.id && b.name\<close> on two strings.\<close>

definition has_id_and_name :: "Bean \<Rightarrow> bool" where
  "has_id_and_name b \<longleftrightarrow> b_id b \<noteq> [] \<and> b_name b \<noteq> []"

text \<open>
  \<open>fetchBeans\<close>: the \<open>try\<close> block works on the outcome of endpoint A, and an exception of
  any of its steps enters the \<open>catch\<close> block, which works on endpoint B and lets its own
  exceptions escape.
\<close>

definition fetchBeans :: "response \<Rightarrow> response \<Rightarrow> exn + Bean list" where
  "fetchBeans respA respB =
     (case (case respA of
              Inl e \<Rightarrow> Inl e
            | Inr data \<Rightarrow>
                (case array_map normalizeOne (unwrap data) of
                   Inl e \<Rightarrow> Inl e
                 | Inr beansA \<Rightarrow> Inr (filter has_id_and_name beansA))) of
        Inr result \<Rightarrow> Inr result
      | Inl caught \<Rightarrow>
          (case respB of
             Inl e \<Rightarrow> Inl e
           | Inr data \<Rightarrow>
               (case array_map normalizeOne (unwrap data) of
                  Inl e \<Rightarrow> Inl e
                | Inr beansB \<Rightarrow> Inr (filter has_id_and_name beansB))))"

text \<open>
  The procedure of the specification, "unwraps either a bare array or an object with a
  data array field, normalizes each element, and retains only elements with non-empty id
  and name", for one endpoint.
\<close>

definition collect_spec :: "response \<Rightarrow> exn + Bean list" where
  "collect_spec resp =
     (case resp of
        Inl e \<Rightarrow> Inl e
      | Inr data \<Rightarrow>
          (case array_map normalizeOne (unwrap data) of
             Inl e \<Rightarrow> Inl e
           | Inr beans \<Rightarrow> Inr (filter (\<lambda>b. b_id b \<noteq> [] \<and> b_name b \<noteq> []) beans)))"










section \<open>The List view\<close>

datatype SortKey = SortName | SortId

datatype SortDir = Asc | Desc

record ListView_state =
  lv_all :: "Bean list"
  lv_loading :: bool
  lv_error :: "jsstring option"
  lv_q :: jsstring
  lv_sortKey :: SortKey
  lv_sortDir :: SortDir

definition ListView_init :: ListView_state where
  "ListView_init =
     \<lparr> lv_all = [], lv_loading = True, lv_error = None, lv_q = [],
       lv_sortKey = SortName, lv_sortDir = Asc \<rparr>"

text \<open>
  The load effect, as a function of the bundled dataset \<open>mockData\<close> (the file
  \<open>mock/beans.json\<close>, a parameter here), of the flag \<open>alive\<close> at the time the requests have
  settled, and of the two outcomes. In the \<open>try\<close> block an empty result is replaced by the
  normalized bundled dataset; an exception of the block, whether of \<open>fetchBeans\<close> or of
  normalizing the bundled dataset, enters the \<open>catch\<close> block, which normalizes the bundled
  dataset again, and an exception there escapes it. The \<open>finally\<close> block clears \<open>loading\<close>.
\<close>

definition ListView_load ::
  "jsval \<Rightarrow> bool \<Rightarrow> response \<Rightarrow> response \<Rightarrow> ListView_state \<Rightarrow> ListView_state" where
  "ListView_load mockData alive respA respB st =
     (if \<not> alive then st
      else
        (case (case fetchBeans respA respB of
                 Inl e \<Rightarrow> Inl e
               | Inr beans \<Rightarrow> if beans = [] then array_map normalizeOne mockData else Inr beans) of
           Inr bs \<Rightarrow> st\<lparr> lv_all := bs, lv_error := None, lv_loading := False \<rparr>
         | Inl caught \<Rightarrow>
             (case array_map normalizeOne mockData of
                Inr ms \<Rightarrow> st\<lparr> lv_all := ms, lv_error := None, lv_loading := False \<rparr>
              | Inl e \<Rightarrow> st\<lparr> lv_loading := False \<rparr>)))"

text \<open>
  \<open>v?.toLowerCase().includes(needle) ?? false\<close> on an optional field: \<open>false\<close> for an absent
  one, the test for a string, and a TypeError for any other value, which has no method
  \<open>toLowerCase\<close>.
\<close>

definition opt_lower_includes :: "unicode \<Rightarrow> jsval \<Rightarrow> jsstring \<Rightarrow> exn + bool" where
  "opt_lower_includes U v needle =
     (case v of
        JUndef \<Rightarrow> Inr False
      | JNull \<Rightarrow> Inr False
      | JStr s \<Rightarrow> Inr (includes_str (toLowerCase U s) needle)
      | _ \<Rightarrow> Inl TypeError)"

text \<open>The filter callback; \<open>||\<close> evaluates its right operand only when the left one is false.\<close>

definition matches :: "unicode \<Rightarrow> jsstring \<Rightarrow> Bean \<Rightarrow> exn + bool" where
  "matches U needle b =
     (if includes_str (toLowerCase U (b_name b)) needle then Inr True
      else
        (case opt_lower_includes U (b_group b) needle of
           Inl e \<Rightarrow> Inl e
         | Inr g \<Rightarrow> if g then Inr True else opt_lower_includes U (b_description b) needle))"

fun filter_exn :: "('a \<Rightarrow> exn + bool) \<Rightarrow> 'a list \<Rightarrow> exn + 'a list" where
  "filter_exn p [] = Inr []"
| "filter_exn p (x # xs) =
     (case p x of
        Inl e \<Rightarrow> Inl e
      | Inr keep \<Rightarrow>
          (case filter_exn p xs of
             Inl e \<Rightarrow> Inl e
           | Inr ys \<Rightarrow> Inr (if keep then x # ys else ys)))"

definition ListView_filtered :: "unicode \<Rightarrow> jsstring \<Rightarrow> Bean list \<Rightarrow> exn + Bean list" where
  "ListView_filtered U q all =
     (let needle = toLowerCase U (trim q)
      in if needle = [] then Inr all else filter_exn (matches U needle) all)"

text \<open>The key the comparator reads: \<open>(sortKey === 'name' ? a.name : a.id).toString().toLowerCase()\<close>.\<close>

definition sort_text :: "unicode \<Rightarrow> SortKey \<Rightarrow> Bean \<Rightarrow> jsstring" where
  "sort_text U k b = toLowerCase U (case k of SortName \<Rightarrow> b_name b | SortId \<Rightarrow> b_id b)"

definition compare_beans :: "unicode \<Rightarrow> SortKey \<Rightarrow> SortDir \<Rightarrow> Bean \<Rightarrow> Bean \<Rightarrow> int" where
  "compare_beans U k d a b =
     (let A = sort_text U k a; B = sort_text U k b
      in if A < B then (if d = Asc then - 1 else 1)
         else if A > B then (if d = Asc then 1 else - 1)
         else 0)"

text \<open>
  \<open>Array.prototype.sort\<close> with a comparator. The language requires the sort to be stable and,
  for a consistent comparator such as this one, fixes its result; the engine's algorithm
  is not part of the program. The model is the insertion sort that puts an element before
  the first later element it does not compare greater than.
\<close>

fun insert_by :: "('a \<Rightarrow> 'a \<Rightarrow> int) \<Rightarrow> 'a \<Rightarrow> 'a list \<Rightarrow> 'a list" where
  "insert_by cmp x [] = [x]"
| "insert_by cmp x (y # ys) = (if cmp x y \<le> 0 then x # y # ys else y # insert_by cmp x ys)"

definition array_sort :: "('a \<Rightarrow> 'a \<Rightarrow> int) \<Rightarrow> 'a list \<Rightarrow> 'a list" where
  "array_sort cmp xs = foldr (insert_by cmp) xs []"

definition ListView_sorted :: "unicode \<Rightarrow> SortKey \<Rightarrow> SortDir \<Rightarrow> Bean list \<Rightarrow> Bean list" where
  "ListView_sorted U k d filtered = array_sort (compare_beans U k d) filtered"

section \<open>Navigation state\<close>

datatype FromSource = FromList | FromGallery

record NavState =
  ns_ids :: "jsstring list option"
  ns_index :: "int option"
  ns_from :: "FromSource option"
  ns_beans :: "Bean list option"

text \<open>A navigation: the path, and the state the router carries with it.\<close>

record Navigation =
  nav_to :: jsstring
  nav_state :: NavState

text \<open>The \<open>Link\<close> of the item at position \<open>i\<close> of the List view.\<close>

definition ListView_link :: "unicode \<Rightarrow> Bean list \<Rightarrow> nat \<Rightarrow> Bean \<Rightarrow> Navigation" where
  "ListView_link U sorted_beans i b =
     \<lparr> nav_to = js ''/detail/'' @ stableId U b i,
       nav_state = \<lparr> ns_ids = Some (stableIds U sorted_beans), ns_index = Some (int i),
                     ns_from = Some FromList, ns_beans = Some sorted_beans \<rparr> \<rparr>"

section \<open>The Gallery view\<close>

text \<open>
  \<open>bucketOf\<close>: a falsy group, and a string group whose trimmed form is empty, give the
  first code unit of the name, upper-cased; a truthy group that is not a string has no
  method \<open>trim\<close>, a TypeError.
\<close>

definition bucketOf :: "unicode \<Rightarrow> Bean \<Rightarrow> exn + jsstring" where
  "bucketOf U b =
     (if truthy (b_group b) then
        (case b_group b of
           JStr g \<Rightarrow> if trim g \<noteq> [] then Inr g else Inr (toUpperCase U (charAt0 (b_name b)))
         | _ \<Rightarrow> Inl TypeError)
      else Inr (toUpperCase U (charAt0 (b_name b))))"

record GalleryView_state =
  gv_all :: "Bean list"
  gv_loading :: bool
  gv_error :: "jsstring option"
  gv_active :: "jsstring list"

definition GalleryView_init :: GalleryView_state where
  "GalleryView_init = \<lparr> gv_all = [], gv_loading = True, gv_error = None, gv_active = [] \<rparr>"

definition GalleryView_load ::
  "jsval \<Rightarrow> bool \<Rightarrow> response \<Rightarrow> response \<Rightarrow> GalleryView_state \<Rightarrow> GalleryView_state" where
  "GalleryView_load mockData alive respA respB st =
     (if \<not> alive then st
      else
        (case (case fetchBeans respA respB of
                 Inl e \<Rightarrow> Inl e
               | Inr beans \<Rightarrow> if beans = [] then array_map normalizeOne mockData else Inr beans) of
           Inr bs \<Rightarrow> st\<lparr> gv_all := bs, gv_error := None, gv_loading := False \<rparr>
         | Inl caught \<Rightarrow>
             (case array_map normalizeOne mockData of
                Inr ms \<Rightarrow> st\<lparr> gv_all := ms, gv_error := None, gv_loading := False \<rparr>
              | Inl e \<Rightarrow> st\<lparr> gv_loading := False \<rparr>)))"

text \<open>\<open>s.add(x)\<close> on a \<open>Set\<close> kept in insertion order.\<close>

definition set_add :: "jsstring list \<Rightarrow> jsstring \<Rightarrow> jsstring list" where
  "set_add s x = (if x \<in> set s then s else s @ [x])"

text \<open>
  \<open>allBuckets\<close>: the buckets are collected into a \<open>Set\<close> and \<open>Array.from(s).sort()\<close> orders
  them by the default comparison of strings, code unit by code unit.
\<close>

definition GalleryView_allBuckets :: "unicode \<Rightarrow> Bean list \<Rightarrow> exn + jsstring list" where
  "GalleryView_allBuckets U all =
     (case traverse (bucketOf U) all of
        Inl e \<Rightarrow> Inl e
      | Inr bs \<Rightarrow> Inr (sort (foldl set_add [] bs)))"

text \<open>The effect that follows every change of \<open>allBuckets\<close> or of \<open>active.length\<close>.\<close>

definition GalleryView_autoselect :: "jsstring list \<Rightarrow> jsstring list \<Rightarrow> jsstring list" where
  "GalleryView_autoselect active allBuckets =
     (if active = [] \<and> allBuckets \<noteq> []
      then take (min 3 (length allBuckets)) allBuckets else active)"

text \<open>
  One render of the Gallery view followed by its effect: \<open>allBuckets\<close> is computed from the
  records (an exception there ends the render) and the effect updates \<open>active\<close>.
\<close>

definition GalleryView_effect :: "unicode \<Rightarrow> GalleryView_state \<Rightarrow> exn + GalleryView_state" where
  "GalleryView_effect U st =
     (case GalleryView_allBuckets U (gv_all st) of
        Inl e \<Rightarrow> Inl e
      | Inr bs \<Rightarrow> Inr (st\<lparr> gv_active := GalleryView_autoselect (gv_active st) bs \<rparr>))"

text \<open>What a List or Gallery view shows.\<close>

datatype collection_view = LoadingView | ErrorTextView jsstring | RecordsView "Bean list"

text \<open>
  The render of the List view: \<open>Loading\<close>, the error text when \<open>error\<close> is a non-empty string,
  and otherwise the sorted, filtered records (an exception of the filter ends the render).
\<close>

definition ListView_render :: "unicode \<Rightarrow> ListView_state \<Rightarrow> exn + collection_view" where
  "ListView_render U st =
     (case ListView_filtered U (lv_q st) (lv_all st) of
        Inl e \<Rightarrow> Inl e
      | Inr filtered \<Rightarrow>
          Inr (if lv_loading st then LoadingView
               else (case lv_error st of
                       Some (c # cs) \<Rightarrow> ErrorTextView (c # cs)
                     | _ \<Rightarrow> RecordsView (ListView_sorted U (lv_sortKey st) (lv_sortDir st) filtered))))"

text \<open>\<open>filtered\<close> of the Gallery view: every record while no bucket is active.\<close>

definition GalleryView_filtered :: "unicode \<Rightarrow> jsstring list \<Rightarrow> Bean list \<Rightarrow> exn + Bean list" where
  "GalleryView_filtered U active all =
     (if active = [] then Inr all
      else filter_exn (\<lambda>b. case bucketOf U b of Inl e \<Rightarrow> Inl e | Inr t \<Rightarrow> Inr (t \<in> set active)) all)"

definition GalleryView_render :: "unicode \<Rightarrow> GalleryView_state \<Rightarrow> exn + collection_view" where
  "GalleryView_render U st =
     (case GalleryView_allBuckets U (gv_all st) of
        Inl e \<Rightarrow> Inl e
      | Inr buckets \<Rightarrow>
          (case GalleryView_filtered U (gv_active st) (gv_all st) of
             Inl e \<Rightarrow> Inl e
           | Inr filtered \<Rightarrow>
               Inr (if gv_loading st then LoadingView
                    else (case gv_error st of
                            Some (c # cs) \<Rightarrow> ErrorTextView (c # cs)
                          | _ \<Rightarrow> RecordsView filtered))))"

text \<open>The \<open>Link\<close> of the card at position \<open>i\<close> of the Gallery view.\<close>

definition GalleryView_link :: "unicode \<Rightarrow> Bean list \<Rightarrow> nat \<Rightarrow> Bean \<Rightarrow> Navigation" where
  "GalleryView_link U filtered i b =
     \<lparr> nav_to = js ''/detail/'' @ stableId U b i,
       nav_state = \<lparr> ns_ids = Some (stableIds U filtered), ns_index = Some (int i),
                     ns_from = Some FromGallery, ns_beans = Some filtered \<rparr> \<rparr>"

section \<open>The Detail view\<close>

text \<open>\<open>xs.indexOf(x)\<close>, \<open>- 1\<close> when there is none; \<open>xs[i]\<close>, \<open>undefined\<close> out of range.\<close>

fun indexOf :: "'a list \<Rightarrow> 'a \<Rightarrow> int" where
  "indexOf [] x = - 1"
| "indexOf (y # ys) x =
     (if y = x then 0 else (let r = indexOf ys x in if r < 0 then - 1 else r + 1))"

definition at_index :: "'a list \<Rightarrow> int \<Rightarrow> 'a option" where
  "at_index xs i = (if 0 \<le> i \<and> i < int (length xs) then Some (xs ! nat i) else None)"

text \<open>
  The HTTP work an effect starts. The component keeps no such list; \<open>dv_requests\<close> records
  it so that "no network fetch" can be stated.
\<close>

datatype request = FetchBeanById jsstring | FetchAllIds

record DetailView_state =
  dv_bean :: "Bean option"
  dv_loading :: bool
  dv_error :: "jsstring option"
  dv_ids :: "jsstring list"
  dv_idx :: int
  dv_requests :: "request list"

text \<open>The state of a freshly mounted Detail view: \<open>passed.ids ?? []\<close>, \<open>passed.index ?? -1\<close>.\<close>

definition DetailView_init :: "NavState \<Rightarrow> DetailView_state" where
  "DetailView_init passed =
     \<lparr> dv_bean = None, dv_loading = True, dv_error = None,
       dv_ids = (case ns_ids passed of None \<Rightarrow> [] | Some l \<Rightarrow> l),
       dv_idx = (case ns_index passed of None \<Rightarrow> - 1 | Some i \<Rightarrow> i),
       dv_requests = [] \<rparr>"

text \<open>\<open>passed.beans?.length\<close> as a condition: a collection was carried and it is not empty.\<close>

definition has_beans :: "NavState \<Rightarrow> bool" where
  "has_beans passed \<longleftrightarrow> (case ns_beans passed of Some (b # bs) \<Rightarrow> True | _ \<Rightarrow> False)"

text \<open>
  An effect reads the route \<open>id\<close>, \<open>passed\<close> and the state of the render it belongs to (its
  closure, the argument \<open>cl\<close> where an effect reads state) and queues updates, which are
  applied in order to the state \<open>st\<close>.
\<close>

definition effect_A ::
  "unicode \<Rightarrow> jsstring \<Rightarrow> NavState \<Rightarrow> DetailView_state \<Rightarrow> DetailView_state" where
  "effect_A U i passed st =
     (case ns_beans passed of
        Some (b # bs) \<Rightarrow>
          (let list = b # bs; nextIds = stableIds U list; pos = indexOf nextIds i
           in st\<lparr> dv_ids := nextIds,
                  dv_idx := (if pos \<ge> 0 then pos else 0),
                  dv_bean := (if pos \<ge> 0 then at_index list pos else Some b),
                  dv_loading := False,
                  dv_error := None \<rparr>)
      | _ \<Rightarrow> st)"

text \<open>Effect B until its request is under way.\<close>

definition effect_B_start :: "jsstring \<Rightarrow> NavState \<Rightarrow> DetailView_state \<Rightarrow> DetailView_state" where
  "effect_B_start i passed st =
     (if has_beans passed then st
      else st\<lparr> dv_loading := True, dv_error := None,
               dv_requests := dv_requests st @ [FetchBeanById i] \<rparr>)"


definition effect_C_start :: "NavState \<Rightarrow> DetailView_state \<Rightarrow> DetailView_state \<Rightarrow> DetailView_state" where
  "effect_C_start passed cl st =
     (if has_beans passed then st
      else if dv_ids cl \<noteq> [] then st
      else st\<lparr> dv_requests := dv_requests st @ [FetchAllIds] \<rparr>)"


definition effect_D :: "jsstring \<Rightarrow> DetailView_state \<Rightarrow> DetailView_state \<Rightarrow> DetailView_state" where
  "effect_D i cl st =
     (if dv_idx cl \<ge> 0 \<or> dv_ids cl = [] \<or> i = [] then st
      else (let pos = indexOf (dv_ids cl) i in st\<lparr> dv_idx := (if pos \<ge> 0 then pos else 0) \<rparr>))"

text \<open>
  The effects of the render that follows a navigation to \<open>/detail/i\<close> with state \<open>passed\<close>
  (a mount, or a change of \<open>id\<close> and \<open>passed\<close> on the mounted view): A, B, C and D run in
  this order on the rendered state \<open>cl\<close>.
\<close>

definition DetailView_effects ::
  "unicode \<Rightarrow> jsstring \<Rightarrow> NavState \<Rightarrow> DetailView_state \<Rightarrow> DetailView_state" where
  "DetailView_effects U i passed cl =
     effect_D i cl (effect_C_start passed cl (effect_B_start i passed (effect_A U i passed cl)))"

text \<open>
  The effects of a later render, after a change of state only (from the rendered state
  \<open>prev\<close> to \<open>cl\<close>): A and B keep their dependencies \<open>[id, passed.beans]\<close> and do not run; C
  runs when \<open>ids.length\<close> has changed, and then D.
\<close>

definition DetailView_effects_again ::
  "jsstring \<Rightarrow> NavState \<Rightarrow> DetailView_state \<Rightarrow> DetailView_state \<Rightarrow> DetailView_state" where
  "DetailView_effects_again i passed prev cl =
     effect_D i cl
       (if length (dv_ids prev) \<noteq> length (dv_ids cl) then effect_C_start passed cl cl else cl)"

definition canPrev :: "DetailView_state \<Rightarrow> bool" where
  "canPrev st \<longleftrightarrow> dv_idx st > 0"

definition canNext :: "DetailView_state \<Rightarrow> bool" where
  "canNext st \<longleftrightarrow> dv_idx st \<ge> 0 \<and> dv_idx st < int (length (dv_ids st)) - 1"

text \<open>
  The target of a transition inside the path: \<open>undefined\<close> prints as that word in a template
  literal.
\<close>

definition target_text :: "jsstring option \<Rightarrow> jsstring" where
  "target_text t = (case t of None \<Rightarrow> js ''undefined'' | Some s \<Rightarrow> s)"

text \<open>\<open>goPrev\<close> and \<open>goNext\<close>: \<^term>\<open>None\<close> when the handler returns without navigating.\<close>

definition goPrev :: "NavState \<Rightarrow> DetailView_state \<Rightarrow> Navigation option" where
  "goPrev passed st =
     (if \<not> canPrev st then None
      else Some \<lparr> nav_to = js ''/detail/'' @ target_text (at_index (dv_ids st) (dv_idx st - 1)),
                  nav_state = \<lparr> ns_ids = Some (dv_ids st), ns_index = Some (dv_idx st - 1),
                                ns_from = ns_from passed, ns_beans = ns_beans passed \<rparr> \<rparr>)"

definition goNext :: "NavState \<Rightarrow> DetailView_state \<Rightarrow> Navigation option" where
  "goNext passed st =
     (if \<not> canNext st then None
      else Some \<lparr> nav_to = js ''/detail/'' @ target_text (at_index (dv_ids st) (dv_idx st + 1)),
                  nav_state = \<lparr> ns_ids = Some (dv_ids st), ns_index = Some (dv_idx st + 1),
                                ns_from = ns_from passed, ns_beans = ns_beans passed \<rparr> \<rparr>)"

text \<open>
  What the Detail view shows: \<open>Loading\<close>, a message (the error text when it is a non-empty
  string, \<open>Not found.\<close> when there is no record), or the record with its two buttons.
\<close>

datatype detail_view =
    DetailLoading
  | DetailMessage jsstring
  | DetailRecord Bean bool bool

definition DetailView_render :: "DetailView_state \<Rightarrow> detail_view" where
  "DetailView_render st =
     (if dv_loading st then DetailLoading
      else
        (case dv_error st of
           Some (c # cs) \<Rightarrow> DetailMessage (c # cs)
         | _ \<Rightarrow>
             (case dv_bean st of
                None \<Rightarrow> DetailMessage (js ''Not found.'')
              | Some b \<Rightarrow> DetailRecord b (canPrev st) (canNext st))))"

text \<open>
  A load without carried state (a deep link): the view mounts, its effects start the two
  fetches, \<open>fetchBeanById\<close> settles on the outcomes \<open>respOne\<close>, \<open>respA\<close>, \<open>respB\<close> of its three
  requests and \<open>fetchAllIds\<close> on the outcomes \<open>respA'\<close>, \<open>respB'\<close> of its two, the view still
  mounted, and the effects of the render that follows run. The two settlements write
  different parts of the state, so their order does not matter.
\<close>

definition no_state :: NavState where
  "no_state = \<lparr> ns_ids = None, ns_index = None, ns_from = None, ns_beans = None \<rparr>"


section \<open>Definitions that state the claims\<close>

text \<open>
  The wording of the specification for the last step of \<open>slug\<close>, "strips leading and trailing
  hyphens": every hyphen at either end goes.
\<close>

definition strip_hyphens_spec :: "jsstring \<Rightarrow> jsstring" where
  "strip_hyphens_spec s =
     rev (dropWhile (\<lambda>c. c = hyphen) (rev (dropWhile (\<lambda>c. c = hyphen) s)))"

text \<open>
  The wording of the specification for a field of the normalizer: the first non-nullish
  property among the alias names, in their order, else the default.
\<close>

fun first_non_nullish :: "jsval \<Rightarrow> jsstring list \<Rightarrow> jsval \<Rightarrow> jsval" where
  "first_non_nullish r [] d = d"
| "first_non_nullish r (k # ks) d =
     (if opt_get r k = JUndef \<or> opt_get r k = JNull then first_non_nullish r ks d
      else opt_get r k)"

text \<open>
  The values whose string coercion cannot raise: the primitives, an object without an own
  property \<open>toString\<close>, and an array of such values.
\<close>

fun coercible :: "jsval \<Rightarrow> bool" where
  "coercible (JArr xs) = (\<forall>x \<in> set xs. coercible x)"
| "coercible (JObj kvs) = (js ''toString'' \<notin> fst ` set kvs)"
| "coercible JUndef = True"
| "coercible JNull = True"
| "coercible (JBool b) = True"
| "coercible (JNum n) = True"
| "coercible (JStr s) = True"

text \<open>
  An optional field as the type \<open>Bean\<close> declares it: a string, or absent.
\<close>

definition typed_optional :: "jsval \<Rightarrow> bool" where
  "typed_optional v \<longleftrightarrow> (case v of JUndef \<Rightarrow> True | JStr s \<Rightarrow> True | _ \<Rightarrow> False)"

text \<open>
  The filter predicate in the words of the specification: the text is a case-insensitive
  substring of the name, of the group or of the description. Two strings are compared
  without regard to case by comparing their lower-cased forms.
\<close>

definition ci_substring :: "unicode \<Rightarrow> jsstring \<Rightarrow> jsval \<Rightarrow> bool" where
  "ci_substring U text v \<longleftrightarrow>
     (case v of JStr s \<Rightarrow> sublist (toLowerCase U text) (toLowerCase U s) | _ \<Rightarrow> False)"

definition matches_spec :: "unicode \<Rightarrow> jsstring \<Rightarrow> Bean \<Rightarrow> bool" where
  "matches_spec U text b \<longleftrightarrow>
     sublist (toLowerCase U text) (toLowerCase U (b_name b)) \<or>
     ci_substring U text (b_group b) \<or> ci_substring U text (b_description b)"

text \<open>
  The bucket of a record whose group is a string or absent: the group when its trimmed
  form is non-empty, else the first code unit of the name, upper-cased.
\<close>

definition bucket_spec :: "unicode \<Rightarrow> Bean \<Rightarrow> jsstring" where
  "bucket_spec U b =
     (case b_group b of
        JStr g \<Rightarrow> if trim g \<noteq> [] then g else toUpperCase U (charAt0 (b_name b))
      | _ \<Rightarrow> toUpperCase U (charAt0 (b_name b)))"

text \<open>
  A record with an id and a name and no other content, and the five-item collection of
  the specification's example of a click on a List item.
\<close>

definition plain_bean :: "string \<Rightarrow> string \<Rightarrow> Bean" where
  "plain_bean i n =
     \<lparr> b_id = js i, b_name = js n, b_description = JStr [], b_imageUrl = JStr [],
       b_group = JStr [], b_color = JStr [] \<rparr>"

definition five_beans :: "Bean list" where
  "five_beans =
     [plain_bean ''a'' ''Apple'', plain_bean ''b'' ''Banana'', plain_bean ''c'' ''Cherry'',
      plain_bean ''d'' ''Date'', plain_bean ''e'' ''Elderberry'']"

section \<open>Literals and the ASCII case\<close>

lemma js_Nil [simp]: "js [] = []"
  by (simp add: js_def)

lemma js_Cons [simp]: "js (c # cs) = of_char c # js cs"
  by (simp add: js_def)

lemma js_eq_iff [simp]: "js s = js t \<longleftrightarrow> s = t"
  unfolding js_def by (simp add: inj_map_eq_map inj_def)

section \<open>The identifier resolver (C1)\<close>

lemma trim_Nil: "trim [] = []"
  by (simp add: trim_def)

lemma hyphen_not_alnum: "\<not> alnum_lower hyphen"
  by (simp add: alnum_lower_def hyphen_def)

lemma replace_runs_head:
  "replace_runs s \<noteq> [] \<Longrightarrow> s \<noteq> [] \<and> (if alnum_lower (hd s) then hd (replace_runs s) = hd s else hd (replace_runs s) = hyphen)"
  by (cases s) auto

lemma dropWhile_head: "dropWhile P xs \<noteq> [] \<Longrightarrow> \<not> P (hd (dropWhile P xs))"
  by (simp add: hd_dropWhile)

lemma replace_runs_chars: "c \<in> set (replace_runs s) \<Longrightarrow> alnum_lower c \<or> c = hyphen"
proof (induction s rule: replace_runs.induct)
  case 1
  then show ?case by simp
next
  case (2 d ds)
  then show ?case by (auto split: if_splits)
qed

lemma replace_runs_no_double: "\<not> sublist [hyphen, hyphen] (replace_runs s)"
proof (induction s rule: replace_runs.induct)
  case 1
  then show ?case by simp
next
  case (2 c cs)
  show ?case
  proof (cases "alnum_lower c")
    case True
    with 2 hyphen_not_alnum show ?thesis
      by (auto simp: sublist_Cons_right)
  next
    case False
    let ?d = "dropWhile (\<lambda>d. \<not> alnum_lower d) cs"
    have ih: "\<not> sublist [hyphen, hyphen] (replace_runs ?d)" using 2 False by simp
    have "\<not> prefix [hyphen] (replace_runs ?d)"
    proof
      assume p: "prefix [hyphen] (replace_runs ?d)"
      then have ne: "replace_runs ?d \<noteq> []" by auto
      from p have h: "hd (replace_runs ?d) = hyphen" by (cases "replace_runs ?d") auto
      from replace_runs_head [OF ne] have dne: "?d \<noteq> []" and
        hh: "(if alnum_lower (hd ?d) then hd (replace_runs ?d) = hd ?d else hd (replace_runs ?d) = hyphen)" by auto
      from dropWhile_head [OF dne] have "alnum_lower (hd ?d)" by simp
      with hh h hyphen_not_alnum show False by simp
    qed
    with ih False show ?thesis
      by (auto simp: sublist_Cons_right)
  qed
qed

lemma filter_dropWhile_not: "filter P (dropWhile (\<lambda>x. \<not> P x) xs) = filter P xs"
  by (induction xs) auto

lemma replace_runs_filter: "filter alnum_lower (replace_runs s) = filter alnum_lower s"
proof (induction s rule: replace_runs.induct)
  case 1
  then show ?case by simp
next
  case (2 c cs)
  then show ?case
    by (auto simp: hyphen_not_alnum filter_dropWhile_not)
qed

lemma no_double_tl: "\<not> sublist [hyphen, hyphen] (c # cs) \<Longrightarrow> \<not> sublist [hyphen, hyphen] cs"
  by (simp add: sublist_Cons_right)

lemma no_double_end: "\<not> sublist [hyphen, hyphen] (zs @ [z, y]) \<Longrightarrow> \<not> (z = hyphen \<and> y = hyphen)"
  by (auto simp: sublist_def)


lemma strip_front:
  assumes "\<not> sublist [hyphen, hyphen] t"
  shows "dropWhile (\<lambda>c. c = hyphen) t =
         (case t of [] \<Rightarrow> [] | c # cs \<Rightarrow> if c = hyphen then cs else c # cs)"
proof (cases t)
  case Nil
  then show ?thesis by simp
next
  case (Cons c cs)
  show ?thesis
  proof (cases cs)
    case Nil
    with Cons show ?thesis by simp
  next
    case (Cons d ds)
    with assms \<open>t = c # cs\<close> have "\<not> (c = hyphen \<and> d = hyphen)"
      by (auto simp: sublist_Cons_right)
    with Cons \<open>t = c # cs\<close> show ?thesis by auto
  qed
qed

lemma strip_back:
  assumes "\<not> sublist [hyphen, hyphen] s"
  shows "rev (dropWhile (\<lambda>c. c = hyphen) (rev s)) =
         (if s \<noteq> [] \<and> last s = hyphen then butlast s else s)"
proof (cases s rule: rev_cases)
  case Nil
  then show ?thesis by simp
next
  case (snoc ys y)
  show ?thesis
  proof (cases ys rule: rev_cases)
    case Nil
    with snoc show ?thesis by simp
  next
    case (snoc zs z)
    with assms \<open>s = ys @ [y]\<close> have "\<not> (z = hyphen \<and> y = hyphen)"
      using no_double_end [of zs z y] by simp
    with snoc \<open>s = ys @ [y]\<close> show ?thesis by (auto simp: butlast_append)
  qed
qed

lemma strip_edge_eq_spec:
  assumes "\<not> sublist [hyphen, hyphen] t"
  shows "strip_edge_hyphens t = strip_hyphens_spec t"
proof -
  let ?s1 = "(case t of [] \<Rightarrow> [] | c # cs \<Rightarrow> if c = hyphen then cs else c # cs)"
  have a: "dropWhile (\<lambda>c. c = hyphen) t = ?s1" using assms by (rule strip_front)
  have "\<not> sublist [hyphen, hyphen] ?s1" using assms by (auto split: list.splits simp: sublist_Cons_right)
  then have b: "rev (dropWhile (\<lambda>c. c = hyphen) (rev ?s1)) =
         (if ?s1 \<noteq> [] \<and> last ?s1 = hyphen then butlast ?s1 else ?s1)" by (rule strip_back)
  show ?thesis
    unfolding strip_edge_hyphens_def strip_hyphens_spec_def a b Let_def ..
qed

lemma rev_dropWhile_rev_prefix: "prefix (rev (dropWhile P (rev u))) u"
proof -
  have "u = rev (takeWhile P (rev u) @ dropWhile P (rev u))" by simp
  also have "\<dots> = rev (dropWhile P (rev u)) @ rev (takeWhile P (rev u))" by (simp only: rev_append)
  finally show ?thesis by (metis prefixI)
qed

lemma strip_spec_no_edge:
  "\<not> prefix [hyphen] (strip_hyphens_spec s) \<and> \<not> suffix [hyphen] (strip_hyphens_spec s)"
proof -
  let ?h = "\<lambda>c. c = hyphen"
  let ?u = "dropWhile ?h s"
  let ?r = "dropWhile ?h (rev ?u)"
  have 1: "?r \<noteq> [] \<Longrightarrow> hd ?r \<noteq> hyphen" using hd_dropWhile [of ?h "rev ?u"] by simp
  have 2: "\<not> suffix [hyphen] (rev ?r)"
  proof
    assume "suffix [hyphen] (rev ?r)"
    then obtain zs where z: "rev ?r = zs @ [hyphen]" by (auto simp: suffix_def)
    then have "rev (rev ?r) = rev (zs @ [hyphen])" by simp
    then have "?r = hyphen # rev zs" by simp
    with 1 show False by simp
  qed
  have 3: "\<not> prefix [hyphen] (rev ?r)"
  proof
    assume "prefix [hyphen] (rev ?r)"
    then obtain zs where z: "rev ?r = hyphen # zs" by (auto simp: prefix_def)
    have "prefix (rev ?r) ?u" by (rule rev_dropWhile_rev_prefix)
    with z obtain ws where "?u = hyphen # ws" by (auto simp: prefix_def)
    then have "?u \<noteq> []" and "hd ?u = hyphen" by simp_all
    with hd_dropWhile [of ?h s] show False by simp
  qed
  show ?thesis unfolding strip_hyphens_spec_def using 2 3 by simp
qed

lemma slugify_eq_spec: "slugify U name = strip_hyphens_spec (replace_runs (toLowerCase U name))"
  unfolding slugify_def by (rule strip_edge_eq_spec) (rule replace_runs_no_double)

lemma strip_spec_subset: "set (strip_hyphens_spec s) \<subseteq> set s"
proof -
  have "set (strip_hyphens_spec s) \<subseteq> set (dropWhile (\<lambda>c. c = hyphen) s)"
    unfolding strip_hyphens_spec_def using set_dropWhileD by fastforce
  also have "\<dots> \<subseteq> set s" using set_dropWhileD by fastforce
  finally show ?thesis .
qed

lemma strip_spec_sublist: "sublist (strip_hyphens_spec s) s"
proof -
  let ?h = "\<lambda>c. c = hyphen"
  have "prefix (strip_hyphens_spec s) (dropWhile ?h s)"
    unfolding strip_hyphens_spec_def by (rule rev_dropWhile_rev_prefix)
  then have a: "sublist (strip_hyphens_spec s) (dropWhile ?h s)" by (rule prefix_imp_sublist)
  have "suffix (dropWhile ?h s) s" by (rule suffix_dropWhile)
  then have "sublist (dropWhile ?h s) s" by (rule suffix_imp_sublist)
  with a show ?thesis by (rule sublist_order.order_trans)
qed

lemma filter_strip_spec:
  assumes "\<not> P hyphen"
  shows "filter P (strip_hyphens_spec s) = filter P s"
proof -
  have nd: "\<And>xs. filter P (dropWhile (\<lambda>c. c = hyphen) xs) = filter P xs"
  proof -
    fix xs show "filter P (dropWhile (\<lambda>c. c = hyphen) xs) = filter P xs"
      using assms by (induction xs) auto
  qed
  have "filter P (strip_hyphens_spec s) =
        rev (filter P (dropWhile (\<lambda>c. c = hyphen) (rev (dropWhile (\<lambda>c. c = hyphen) s))))"
    unfolding strip_hyphens_spec_def by (simp only: rev_filter)
  also have "\<dots> = rev (filter P (rev (dropWhile (\<lambda>c. c = hyphen) s)))" by (simp only: nd)
  also have "\<dots> = filter P (dropWhile (\<lambda>c. c = hyphen) s)" by (simp add: rev_filter)
  also have "\<dots> = filter P s" by (rule nd)
  finally show ?thesis .
qed

lemma trim_nonempty_imp: "trim s \<noteq> [] \<Longrightarrow> s \<noteq> []"
  by (auto simp: trim_def)

lemma toLowerCase_ascii: "is_ascii s \<Longrightarrow> toLowerCase U s = map ascii_lower s"
  by (simp add: toLowerCase_def)

lemma toUpperCase_ascii: "is_ascii s \<Longrightarrow> toUpperCase U s = map ascii_upper s"
  by (simp add: toUpperCase_def)

lemma toLowerCase_Nil: "toLowerCase U [] = []"
  by (simp add: toLowerCase_def is_ascii_def)

text \<open>
  C1, as the code has it. For every Bean \<open>b\<close> and index \<open>i\<close> the identifier is a non-empty
  string: the Bean's own id, as it stands and not trimmed, when the trimmed id is
  non-empty, and otherwise \<open>name-\<close>, the slug of the name, a hyphen and the index. The slug
  is the lower-cased name with each run of code units outside \<open>[a-z0-9]\<close> replaced by one
  hyphen and all leading and trailing hyphens stripped: it consists of code units of
  \<open>[a-z0-9]\<close> and hyphens, has no two hyphens in a row and none at either end, and keeps the
  alphanumeric code units of the lower-cased name in order. The slug of
  \<open>Jelly Bean!! #2\<close> is \<open>jelly-bean-2\<close>.
\<close>

theorem stableId_spec:
  "stableId U b i \<noteq> []
   \<and> (trim (b_id b) \<noteq> [] \<longrightarrow> stableId U b i = b_id b)
   \<and> (trim (b_id b) = [] \<longrightarrow>
        stableId U b i = js ''name-'' @ slugify U (b_name b) @ js ''-'' @ String_nat i)
   \<and> slugify U name = strip_hyphens_spec (replace_runs (toLowerCase U name))
   \<and> (\<forall>c \<in> set (slugify U name). alnum_lower c \<or> c = hyphen)
   \<and> \<not> sublist [hyphen, hyphen] (slugify U name)
   \<and> \<not> prefix [hyphen] (slugify U name) \<and> \<not> suffix [hyphen] (slugify U name)
   \<and> filter alnum_lower (slugify U name) = filter alnum_lower (toLowerCase U name)
   \<and> slugify U (js ''Jelly Bean!! #2'') = js ''jelly-bean-2''"
proof -
  have 1: "stableId U b i \<noteq> []"
    by (simp add: stableId_def)
  have 2: "trim (b_id b) \<noteq> [] \<longrightarrow> stableId U b i = b_id b"
    using trim_nonempty_imp [of "b_id b"] by (simp add: stableId_def)
  have 3: "trim (b_id b) = [] \<longrightarrow>
      stableId U b i = js ''name-'' @ slugify U (b_name b) @ js ''-'' @ String_nat i"
    by (simp add: stableId_def)
  have 4: "slugify U name = strip_hyphens_spec (replace_runs (toLowerCase U name))"
    by (rule slugify_eq_spec)
  have 5: "\<forall>c \<in> set (slugify U name). alnum_lower c \<or> c = hyphen"
    unfolding 4 using strip_spec_subset replace_runs_chars by blast
  have 6: "\<not> sublist [hyphen, hyphen] (slugify U name)"
  proof
    assume "sublist [hyphen, hyphen] (slugify U name)"
    then have "sublist [hyphen, hyphen] (replace_runs (toLowerCase U name))"
      unfolding 4 using strip_spec_sublist by (rule sublist_order.order_trans)
    with replace_runs_no_double show False by blast
  qed
  have 7: "\<not> prefix [hyphen] (slugify U name) \<and> \<not> suffix [hyphen] (slugify U name)"
    unfolding 4 by (rule strip_spec_no_edge)
  have 8: "filter alnum_lower (slugify U name) = filter alnum_lower (toLowerCase U name)"
    unfolding 4 by (simp add: filter_strip_spec hyphen_not_alnum replace_runs_filter)
  have 9: "slugify U (js ''Jelly Bean!! #2'') = js ''jelly-bean-2''"
    by (simp add: slugify_def toLowerCase_def is_ascii_def ascii_lower_def
        strip_edge_hyphens_def alnum_lower_def hyphen_def)
  from 1 2 3 4 5 6 7 8 9 show ?thesis by blast
qed

theorem stableId_spec_witness:
  "stableId ascii_only
     \<lparr> b_id = js ''  '', b_name = js ''Jelly Bean!! #2'', b_description = JUndef,
       b_imageUrl = JUndef, b_group = JUndef, b_color = JUndef \<rparr> 12
     = js ''name-jelly-bean-2-12''
   \<and> stableId ascii_only
     \<lparr> b_id = [160], b_name = js ''x'', b_description = JUndef,
       b_imageUrl = JUndef, b_group = JUndef, b_color = JUndef \<rparr> 0
     = js ''name-x-0''
   \<and> stableId ascii_only
     \<lparr> b_id = js ''b7'', b_name = js ''Lime'', b_description = JUndef,
       b_imageUrl = JUndef, b_group = JUndef, b_color = JUndef \<rparr> 3 = js ''b7''
   \<and> trim (js ''b7'') = js ''b7''
   \<and> set (slugify ascii_only (js ''A--b'')) = {97, 45, 98}"
proof -
  let ?b = "\<lparr> b_id = js ''  '', b_name = js ''Jelly Bean!! #2'', b_description = JUndef,
              b_imageUrl = JUndef, b_group = JUndef, b_color = JUndef \<rparr>"
  let ?n = "\<lparr> b_id = [160], b_name = js ''x'', b_description = JUndef,
              b_imageUrl = JUndef, b_group = JUndef, b_color = JUndef \<rparr>"
  let ?c = "\<lparr> b_id = js ''b7'', b_name = js ''Lime'', b_description = JUndef,
              b_imageUrl = JUndef, b_group = JUndef, b_color = JUndef \<rparr>"
  have t: "trim (b_id ?b) = []" by (simp add: trim_def js_space_def)
  have tn: "trim (b_id ?n) = []" by (simp add: trim_def js_space_def)
  have n12: "String_nat 12 = js ''12''" by code_simp
  have n0: "String_nat 0 = js ''0''" by code_simp
  have u': "trim (js ''b7'') = js ''b7''" by (simp add: trim_def js_space_def)
  then have u: "trim (b_id ?c) \<noteq> []" by simp
  have sx: "slugify ascii_only (js ''x'') = js ''x''"
    by (simp add: slugify_def toLowerCase_def is_ascii_def ascii_lower_def
        strip_edge_hyphens_def alnum_lower_def hyphen_def)
  have s: "set (slugify ascii_only (js ''A--b'')) = {97, 45, 98}"
    by (simp add: slugify_def toLowerCase_def is_ascii_def ascii_lower_def
        strip_edge_hyphens_def alnum_lower_def hyphen_def)
  note th = stableId_spec [where U = ascii_only and name = "js ''A--b''"]
  from th [of ?b 12] t
  have "stableId ascii_only ?b 12 =
      js ''name-'' @ slugify ascii_only (b_name ?b) @ js ''-'' @ String_nat 12" by blast
  moreover from th [of ?b 12]
  have "slugify ascii_only (js ''Jelly Bean!! #2'') = js ''jelly-bean-2''" by blast
  ultimately have a: "stableId ascii_only ?b 12 = js ''name-jelly-bean-2-12''"
    using n12 by simp
  from th [of ?n 0] tn
  have "stableId ascii_only ?n 0 =
      js ''name-'' @ slugify ascii_only (b_name ?n) @ js ''-'' @ String_nat 0" by blast
  then have a': "stableId ascii_only ?n 0 = js ''name-x-0''"
    using n0 sx by simp
  from th [of ?c 3] u have b: "stableId ascii_only ?c 3 = js ''b7''" by simp
  from a a' b u' s show ?thesis by blast
qed

text \<open>
  The claim as worded fails for an id with white space around it: the identifier is the
  id itself, not the trimmed id.
\<close>

theorem stableId_trim_counterexample:
  "trim (b_id \<lparr> b_id = js '' a '', b_name = js ''x'', b_description = JUndef,
              b_imageUrl = JUndef, b_group = JUndef, b_color = JUndef \<rparr>) = js ''a''
   \<and> stableId ascii_only \<lparr> b_id = js '' a '', b_name = js ''x'', b_description = JUndef,
              b_imageUrl = JUndef, b_group = JUndef, b_color = JUndef \<rparr> 0 = js '' a ''
   \<and> stableId ascii_only \<lparr> b_id = js '' a '', b_name = js ''x'', b_description = JUndef,
              b_imageUrl = JUndef, b_group = JUndef, b_color = JUndef \<rparr> 0
      \<noteq> trim (b_id \<lparr> b_id = js '' a '', b_name = js ''x'', b_description = JUndef,
              b_imageUrl = JUndef, b_group = JUndef, b_color = JUndef \<rparr>)"
  by (simp add: stableId_def trim_def js_space_def)

section \<open>The record normalizer (C2)\<close>

lemma join_comma_total:
  "(\<forall>y \<in> set ys. \<exists>s. y = Inr s) \<Longrightarrow> \<exists>s. join_comma ys = Inr s"
  by (induction ys rule: join_comma.induct) auto

lemma String_js_total: "coercible v \<Longrightarrow> \<exists>s. String_js v = Inr s"
proof (induction v)
  case (JArr xs)
  have "\<forall>y \<in> set (map (\<lambda>x. if x = JUndef \<or> x = JNull then Inr [] else String_js x) xs). \<exists>s. y = Inr s"
    using JArr by auto
  then show ?case by (simp add: join_comma_total)
qed auto

lemma normalizeOne_fields:
  "normalizeOne r =
     (case String_js (first_non_nullish r [js ''id'', js ''_id'', js ''beanId'', js ''Id'', js ''ID''] (JStr (js ''''))) of
        Inl e \<Rightarrow> Inl e
      | Inr i \<Rightarrow>
     (case String_js (first_non_nullish r [js ''name'', js ''flavor'', js ''title''] (JStr (js ''Unknown''))) of
        Inl e \<Rightarrow> Inl e
      | Inr n \<Rightarrow>
        Inr \<lparr> b_id = i, b_name = n,
              b_description = first_non_nullish r [js ''description'', js ''desc'', js ''about''] (JStr (js '''')),
              b_imageUrl = first_non_nullish r [js ''imageUrl'', js ''image'', js ''img'', js ''photoUrl'', js ''thumbnail''] (JStr (js '''')),
              b_group = first_non_nullish r [js ''group'', js ''category'', js ''type'', js ''family''] (JStr (js '''')),
              b_color = first_non_nullish r [js ''color'', js ''hexColor'', js ''hex''] (JStr (js '''')) \<rparr>))"
  by (simp only: normalizeOne_def nc_def nullish_def first_non_nullish.simps)

lemma first_non_nullish_not_obj:
  "(\<forall>kvs. r \<noteq> JObj kvs) \<Longrightarrow> first_non_nullish r ks d = d"
proof (induction ks)
  case Nil
  then show ?case by simp
next
  case (Cons k ks)
  then have "opt_get r k = JUndef" by (cases r) simp_all
  with Cons show ?case by simp
qed
text \<open>
  C2, as the code has it. Whenever the string coercion of the selected id and name values
  cannot raise (they are primitives, objects without an own \<open>toString\<close> property, or arrays
  of such values), \<open>normalizeOne\<close> returns a Bean: its id is the string coercion of the first
  non-nullish property among \<open>id, _id, beanId, Id, ID\<close>, else of the empty string; its name
  that of the first non-nullish property among \<open>name, flavor, title\<close>, else of \<open>Unknown\<close>;
  description, imageUrl, group and color are the first non-nullish value of their alias
  lists, else the empty string. An input that is not an object at all gives the Bean of
  the defaults. The coercion of a string is the string itself, and strings, numbers and
  booleans are among the values whose coercion cannot raise.
\<close>

theorem normalizeOne_spec:
  "(coercible (first_non_nullish r [js ''id'', js ''_id'', js ''beanId'', js ''Id'', js ''ID''] (JStr (js '''')))
    \<and> coercible (first_non_nullish r [js ''name'', js ''flavor'', js ''title''] (JStr (js ''Unknown'')))
    \<longrightarrow> (\<exists>i n.
          String_js (first_non_nullish r [js ''id'', js ''_id'', js ''beanId'', js ''Id'', js ''ID''] (JStr (js ''''))) = Inr i
        \<and> String_js (first_non_nullish r [js ''name'', js ''flavor'', js ''title''] (JStr (js ''Unknown''))) = Inr n
        \<and> normalizeOne r =
            Inr \<lparr> b_id = i, b_name = n,
                  b_description = first_non_nullish r [js ''description'', js ''desc'', js ''about''] (JStr (js '''')),
                  b_imageUrl = first_non_nullish r
                     [js ''imageUrl'', js ''image'', js ''img'', js ''photoUrl'', js ''thumbnail''] (JStr (js '''')),
                  b_group = first_non_nullish r [js ''group'', js ''category'', js ''type'', js ''family''] (JStr (js '''')),
                  b_color = first_non_nullish r [js ''color'', js ''hexColor'', js ''hex''] (JStr (js '''')) \<rparr>))
   \<and> ((\<forall>kvs. r \<noteq> JObj kvs) \<longrightarrow>
        normalizeOne r =
          Inr \<lparr> b_id = [], b_name = js ''Unknown'', b_description = JStr [], b_imageUrl = JStr [],
                b_group = JStr [], b_color = JStr [] \<rparr>)
   \<and> String_js (JStr s) = Inr s
   \<and> coercible (JStr s) \<and> coercible (JNum m) \<and> coercible (JBool t)"
proof (intro conjI impI)
  let ?idv = "first_non_nullish r [js ''id'', js ''_id'', js ''beanId'', js ''Id'', js ''ID''] (JStr (js ''''))"
  let ?namev = "first_non_nullish r [js ''name'', js ''flavor'', js ''title''] (JStr (js ''Unknown''))"
  assume c: "coercible ?idv \<and> coercible ?namev"
  from c String_js_total obtain i where i: "String_js ?idv = Inr i" by blast
  from c String_js_total obtain n where n: "String_js ?namev = Inr n" by blast
  have "normalizeOne r =
            Inr \<lparr> b_id = i, b_name = n,
                  b_description = first_non_nullish r [js ''description'', js ''desc'', js ''about''] (JStr (js '''')),
                  b_imageUrl = first_non_nullish r
                     [js ''imageUrl'', js ''image'', js ''img'', js ''photoUrl'', js ''thumbnail''] (JStr (js '''')),
                  b_group = first_non_nullish r [js ''group'', js ''category'', js ''type'', js ''family''] (JStr (js '''')),
                  b_color = first_non_nullish r [js ''color'', js ''hexColor'', js ''hex''] (JStr (js '''')) \<rparr>"
    by (simp only: normalizeOne_fields [of r] i n sum.case)
  with i n show "\<exists>i n.
          String_js ?idv = Inr i \<and> String_js ?namev = Inr n
        \<and> normalizeOne r =
            Inr \<lparr> b_id = i, b_name = n,
                  b_description = first_non_nullish r [js ''description'', js ''desc'', js ''about''] (JStr (js '''')),
                  b_imageUrl = first_non_nullish r
                     [js ''imageUrl'', js ''image'', js ''img'', js ''photoUrl'', js ''thumbnail''] (JStr (js '''')),
                  b_group = first_non_nullish r [js ''group'', js ''category'', js ''type'', js ''family''] (JStr (js '''')),
                  b_color = first_non_nullish r [js ''color'', js ''hexColor'', js ''hex''] (JStr (js '''')) \<rparr>"
    by (intro exI conjI)
next
  assume a: "\<forall>kvs. r \<noteq> JObj kvs"
  show "normalizeOne r =
          Inr \<lparr> b_id = [], b_name = js ''Unknown'', b_description = JStr [], b_imageUrl = JStr [],
                b_group = JStr [], b_color = JStr [] \<rparr>"
    by (simp only: normalizeOne_fields [of r] first_non_nullish_not_obj [OF a] String_js.simps
        sum.case js_Nil)
qed simp_all

theorem normalizeOne_spec_witness:
  "normalizeOne (JObj [(js ''beanId'', JNum (js ''12'')), (js ''flavor'', JStr (js ''Lime'')), (js ''desc'', JNull),
                      (js ''about'', JStr (js ''sour'')), (js ''type'', JStr (js ''Citrus''))])
     = Inr \<lparr> b_id = js ''12'', b_name = js ''Lime'', b_description = JStr (js ''sour''),
             b_imageUrl = JStr [], b_group = JStr (js ''Citrus''), b_color = JStr [] \<rparr>
   \<and> normalizeOne (JArr []) =
       Inr \<lparr> b_id = [], b_name = js ''Unknown'', b_description = JStr [], b_imageUrl = JStr [],
             b_group = JStr [], b_color = JStr [] \<rparr>"
proof -
  let ?r = "JObj [(js ''beanId'', JNum (js ''12'')), (js ''flavor'', JStr (js ''Lime'')), (js ''desc'', JNull),
                      (js ''about'', JStr (js ''sour'')), (js ''type'', JStr (js ''Citrus''))]"
  have idv: "first_non_nullish ?r [js ''id'', js ''_id'', js ''beanId'', js ''Id'', js ''ID''] (JStr (js '''')) = JNum (js ''12'')"
    by simp
  have namev: "first_non_nullish ?r [js ''name'', js ''flavor'', js ''title''] (JStr (js ''Unknown'')) = JStr (js ''Lime'')"
    by simp
  have c: "coercible (first_non_nullish ?r [js ''id'', js ''_id'', js ''beanId'', js ''Id'', js ''ID''] (JStr (js '''')))
    \<and> coercible (first_non_nullish ?r [js ''name'', js ''flavor'', js ''title''] (JStr (js ''Unknown'')))"
    by (simp only: idv namev coercible.simps)
  have a: "normalizeOne ?r
     = Inr \<lparr> b_id = js ''12'', b_name = js ''Lime'', b_description = JStr (js ''sour''),
             b_imageUrl = JStr [], b_group = JStr (js ''Citrus''), b_color = JStr [] \<rparr>"
    using normalizeOne_spec [of ?r] c by simp
  have b: "normalizeOne (JArr []) =
       Inr \<lparr> b_id = [], b_name = js ''Unknown'', b_description = JStr [], b_imageUrl = JStr [],
             b_group = JStr [], b_color = JStr [] \<rparr>"
    using normalizeOne_spec [of "JArr []"] by simp
  from a b show ?thesis by (rule conjI)
qed

text \<open>
  The claim as worded, "for every input value of any shape, without raising an error",
  fails for a record whose id is an object with an own property \<open>toString\<close>: \<open>String\<close> raises
  a TypeError on it and \<open>normalizeOne\<close> does not catch it.
\<close>

theorem normalizeOne_raises_counterexample:
  "normalizeOne (JObj [(js ''id'', JObj [(js ''toString'', JNull)])]) = Inl TypeError
   \<and> \<not> (\<exists>b. normalizeOne (JObj [(js ''id'', JObj [(js ''toString'', JNull)])]) = Inr b)"
  by (simp add: normalizeOne_def nc_def nullish_def)

section \<open>The List view's filter (C7)\<close>

lemma opt_lower_includes_typed:
  "typed_optional v \<Longrightarrow>
   opt_lower_includes U v (toLowerCase U text) = Inr (ci_substring U text v)"
  by (cases v)
    (simp_all add: typed_optional_def opt_lower_includes_def ci_substring_def includes_str_def)

lemma matches_typed:
  assumes "typed_optional (b_group b)" and "typed_optional (b_description b)"
  shows "matches U (toLowerCase U text) b = Inr (matches_spec U text b)"
proof -
  have g: "opt_lower_includes U (b_group b) (toLowerCase U text) =
      Inr (ci_substring U text (b_group b))"
    using assms(1) by (rule opt_lower_includes_typed)
  have d: "opt_lower_includes U (b_description b) (toLowerCase U text) =
      Inr (ci_substring U text (b_description b))"
    using assms(2) by (rule opt_lower_includes_typed)
  show ?thesis
    unfolding matches_def g d by (simp add: matches_spec_def includes_str_def)
qed

lemma filter_exn_total:
  "(\<forall>x \<in> set xs. p x = Inr (P x)) \<Longrightarrow> filter_exn p xs = Inr (filter P xs)"
  by (induction xs) simp_all

lemma matches_spec_empty_needle: "toLowerCase U text = [] \<Longrightarrow> matches_spec U text b"
  by (simp add: matches_spec_def)

text \<open>
  C7, as the code has it. The needle is the search text trimmed and lower-cased. For
  records whose group and description are strings or absent, the filter keeps exactly
  the records for which the trimmed search text is a case-insensitive substring of the
  name, of the group or of the description. When the trimmed search text is empty (an
  empty search text, or one of white space only) the filtered collection is the loaded
  collection, whatever the records hold.
\<close>

theorem ListView_filtered_spec:
  "((\<forall>b \<in> set all. typed_optional (b_group b) \<and> typed_optional (b_description b)) \<longrightarrow>
      ListView_filtered U q all = Inr (filter (matches_spec U (trim q)) all))
   \<and> (trim q = [] \<longrightarrow> ListView_filtered U q all = Inr all)
   \<and> ListView_filtered U [] all = Inr all
   \<and> matches_spec U text b =
       (sublist (toLowerCase U text) (toLowerCase U (b_name b))
        \<or> (\<exists>g. b_group b = JStr g \<and> sublist (toLowerCase U text) (toLowerCase U g))
        \<or> (\<exists>d. b_description b = JStr d \<and> sublist (toLowerCase U text) (toLowerCase U d)))"
proof (intro conjI impI)
  assume wt: "\<forall>b \<in> set all. typed_optional (b_group b) \<and> typed_optional (b_description b)"
  show "ListView_filtered U q all = Inr (filter (matches_spec U (trim q)) all)"
  proof (cases "toLowerCase U (trim q) = []")
    case True
    then show ?thesis
      by (simp add: ListView_filtered_def matches_spec_empty_needle)
  next
    case False
    from wt have "\<forall>b \<in> set all.
        matches U (toLowerCase U (trim q)) b = Inr (matches_spec U (trim q) b)"
      by (simp add: matches_typed)
    then have "filter_exn (matches U (toLowerCase U (trim q))) all =
        Inr (filter (matches_spec U (trim q)) all)"
      by (rule filter_exn_total)
    with False show ?thesis
      by (simp add: ListView_filtered_def)
  qed
next
  assume "trim q = []"
  then show "ListView_filtered U q all = Inr all"
    by (simp add: ListView_filtered_def toLowerCase_Nil)
next
  show "ListView_filtered U [] all = Inr all"
    by (simp add: ListView_filtered_def toLowerCase_Nil trim_Nil)
next
  show "matches_spec U text b =
       (sublist (toLowerCase U text) (toLowerCase U (b_name b))
        \<or> (\<exists>g. b_group b = JStr g \<and> sublist (toLowerCase U text) (toLowerCase U g))
        \<or> (\<exists>d. b_description b = JStr d \<and> sublist (toLowerCase U text) (toLowerCase U d)))"
    by (auto simp: matches_spec_def ci_substring_def split: jsval.splits)
qed

theorem ListView_filtered_spec_witness:
  "ListView_filtered ascii_only (js ''  BER '')
     [\<lparr> b_id = js ''1'', b_name = js ''Lime'', b_description = JStr (js ''sour''),
         b_imageUrl = JUndef, b_group = JStr (js ''Citrus''), b_color = JUndef \<rparr>,
      \<lparr> b_id = js ''2'', b_name = js ''Cherry'', b_description = JStr (js ''red''),
         b_imageUrl = JUndef, b_group = JStr (js ''Berry''), b_color = JUndef \<rparr>]
   = Inr [\<lparr> b_id = js ''2'', b_name = js ''Cherry'', b_description = JStr (js ''red''),
            b_imageUrl = JUndef, b_group = JStr (js ''Berry''), b_color = JUndef \<rparr>]
   \<and> ListView_filtered ascii_only [32, 160, 9]
     [\<lparr> b_id = js ''1'', b_name = js ''Lime'', b_description = JStr (js ''sour''),
         b_imageUrl = JUndef, b_group = JStr (js ''Citrus''), b_color = JUndef \<rparr>]
   = Inr [\<lparr> b_id = js ''1'', b_name = js ''Lime'', b_description = JStr (js ''sour''),
         b_imageUrl = JUndef, b_group = JStr (js ''Citrus''), b_color = JUndef \<rparr>]"
proof -
  let ?l = "\<lparr> b_id = js ''1'', b_name = js ''Lime'', b_description = JStr (js ''sour''),
         b_imageUrl = JUndef, b_group = JStr (js ''Citrus''), b_color = JUndef \<rparr>"
  let ?c = "\<lparr> b_id = js ''2'', b_name = js ''Cherry'', b_description = JStr (js ''red''),
         b_imageUrl = JUndef, b_group = JStr (js ''Berry''), b_color = JUndef \<rparr>"
  have wt: "\<forall>b \<in> set [?l, ?c]. typed_optional (b_group b) \<and> typed_optional (b_description b)"
    by (simp add: typed_optional_def)
  have tq: "trim (js ''  BER '') = js ''BER''"
    by (simp add: trim_def js_space_def)
  have f: "filter (matches_spec ascii_only (js ''BER'')) [?l, ?c] = [?c]"
    by code_simp
  have t: "trim [32, 160, 9] = []"
    by (simp add: trim_def js_space_def)
  from ListView_filtered_spec [of "[?l, ?c]" ascii_only "js ''  BER ''"] wt
  have "ListView_filtered ascii_only (js ''  BER '') [?l, ?c] =
      Inr (filter (matches_spec ascii_only (trim (js ''  BER ''))) [?l, ?c])"
    by blast
  then have a: "ListView_filtered ascii_only (js ''  BER '') [?l, ?c] = Inr [?c]"
    by (simp only: tq f)
  from ListView_filtered_spec [of "[?l]" ascii_only "[32, 160, 9]"] t
  have b: "ListView_filtered ascii_only [32, 160, 9] [?l] = Inr [?l]" by blast
  from a b show ?thesis by (rule conjI)
qed

text \<open>
  The claim as worded fails in two ways. For a search text with white space around it
  the filter keeps a record in which the trimmed text occurs and the search text itself
  does not. And a record whose group is not a string, which \<open>normalizeOne\<close> produces from
  a payload with a numeric group, makes the filter raise a TypeError once the name does
  not match.
\<close>

theorem ListView_filtered_trim_counterexample:
  "ListView_filtered ascii_only (js '' a'')
     [\<lparr> b_id = js ''1'', b_name = js ''a'', b_description = JUndef, b_imageUrl = JUndef,
         b_group = JUndef, b_color = JUndef \<rparr>]
   = Inr [\<lparr> b_id = js ''1'', b_name = js ''a'', b_description = JUndef, b_imageUrl = JUndef,
         b_group = JUndef, b_color = JUndef \<rparr>]
   \<and> \<not> matches_spec ascii_only (js '' a'')
         \<lparr> b_id = js ''1'', b_name = js ''a'', b_description = JUndef, b_imageUrl = JUndef,
           b_group = JUndef, b_color = JUndef \<rparr>
   \<and> normalizeOne (JObj [(js ''id'', JStr (js ''1'')), (js ''name'', JStr (js ''Lime'')),
                          (js ''group'', JNum (js ''3''))])
     = Inr \<lparr> b_id = js ''1'', b_name = js ''Lime'', b_description = JStr [],
             b_imageUrl = JStr [], b_group = JNum (js ''3''), b_color = JStr [] \<rparr>
   \<and> ListView_filtered ascii_only (js ''x'')
        [\<lparr> b_id = js ''1'', b_name = js ''Lime'', b_description = JStr [],
           b_imageUrl = JStr [], b_group = JNum (js ''3''), b_color = JStr [] \<rparr>]
     = Inl TypeError"
  by (simp add: ListView_filtered_def trim_def js_space_def toLowerCase_def is_ascii_def
      ascii_lower_def matches_def matches_spec_def ci_substring_def includes_str_def
      opt_lower_includes_def normalizeOne_def nc_def nullish_def sublist_Cons_right)

section \<open>The category bucket (C8)\<close>

lemma bucketOf_typed: "typed_optional (b_group b) \<Longrightarrow> bucketOf U b = Inr (bucket_spec U b)"
proof (cases "b_group b")
  case (JStr g)
  then show ?thesis
    using trim_nonempty_imp [of g] by (auto simp: bucketOf_def bucket_spec_def)
qed (simp_all add: typed_optional_def bucketOf_def bucket_spec_def)

text \<open>
  C8, as the code has it. For a Bean whose group is a string, the bucket is the group
  whenever the trimmed group is non-empty, and otherwise, as for a Bean without a group,
  the first code unit of the name, upper-cased (the empty string for an empty name, the
  upper-case letter for an ASCII letter).
\<close>

theorem bucketOf_spec:
  "(b_group b = JStr g \<and> trim g \<noteq> [] \<longrightarrow> bucketOf U b = Inr g)
   \<and> (b_group b = JStr g \<and> trim g = [] \<longrightarrow>
        bucketOf U b = Inr (toUpperCase U (charAt0 (b_name b))))
   \<and> (b_group b = JUndef \<longrightarrow> bucketOf U b = Inr (toUpperCase U (charAt0 (b_name b))))
   \<and> charAt0 (c # cs) = [c]
   \<and> charAt0 [] = []
   \<and> toUpperCase U [] = []
   \<and> (c < 128 \<longrightarrow> toUpperCase U [c] = [ascii_upper c])"
proof (intro conjI impI)
  assume "b_group b = JStr g \<and> trim g \<noteq> []"
  then show "bucketOf U b = Inr g"
    using trim_nonempty_imp [of g] by (simp add: bucketOf_def)
next
  assume "b_group b = JStr g \<and> trim g = []"
  then show "bucketOf U b = Inr (toUpperCase U (charAt0 (b_name b)))"
    by (simp add: bucketOf_def)
next
  assume "b_group b = JUndef"
  then show "bucketOf U b = Inr (toUpperCase U (charAt0 (b_name b)))"
    by (simp add: bucketOf_def)
next
  assume "c < 128"
  then show "toUpperCase U [c] = [ascii_upper c]"
    by (simp add: toUpperCase_def is_ascii_def)
qed (simp_all add: toUpperCase_def charAt0_def is_ascii_def)

theorem bucketOf_spec_witness:
  "bucketOf ascii_only
     \<lparr> b_id = js ''1'', b_name = js ''lime'', b_description = JUndef, b_imageUrl = JUndef,
       b_group = JStr (js ''Citrus''), b_color = JUndef \<rparr> = Inr (js ''Citrus'')
   \<and> bucketOf ascii_only
     \<lparr> b_id = js ''2'', b_name = js ''apple'', b_description = JUndef, b_imageUrl = JUndef,
       b_group = JStr [160], b_color = JUndef \<rparr> = Inr (js ''A'')
   \<and> bucketOf ascii_only
     \<lparr> b_id = js ''3'', b_name = js ''pear'', b_description = JUndef, b_imageUrl = JUndef,
       b_group = JUndef, b_color = JUndef \<rparr> = Inr (js ''P'')"
proof -
  let ?l = "\<lparr> b_id = js ''1'', b_name = js ''lime'', b_description = JUndef, b_imageUrl = JUndef,
       b_group = JStr (js ''Citrus''), b_color = JUndef \<rparr>"
  let ?a = "\<lparr> b_id = js ''2'', b_name = js ''apple'', b_description = JUndef, b_imageUrl = JUndef,
       b_group = JStr [160], b_color = JUndef \<rparr>"
  let ?p = "\<lparr> b_id = js ''3'', b_name = js ''pear'', b_description = JUndef, b_imageUrl = JUndef,
       b_group = JUndef, b_color = JUndef \<rparr>"
  have t: "trim (js ''Citrus'') \<noteq> []" by (simp add: trim_def js_space_def)
  have tb: "trim [160] = []" by (simp add: trim_def js_space_def)
  have gl: "b_group ?l = JStr (js ''Citrus'')" and ga: "b_group ?a = JStr [160]"
    and gp: "b_group ?p = JUndef"
    by simp_all
  note th = bucketOf_spec [where U = ascii_only]
  from th [of ?l "js ''Citrus''"] gl t have 1: "bucketOf ascii_only ?l = Inr (js ''Citrus'')"
    by blast
  from th [of ?a "[160]"] ga tb
  have "bucketOf ascii_only ?a = Inr (toUpperCase ascii_only (charAt0 (b_name ?a)))"
    by blast
  moreover from th [of ?a "[160]" 97] have "toUpperCase ascii_only [97] = [ascii_upper 97]"
    by simp
  ultimately have 2: "bucketOf ascii_only ?a = Inr (js ''A'')"
    by (simp add: charAt0_def ascii_upper_def)
  from th [of ?p] gp
  have "bucketOf ascii_only ?p = Inr (toUpperCase ascii_only (charAt0 (b_name ?p)))"
    by blast
  moreover from th [of ?p "[]" 112] have "toUpperCase ascii_only [112] = [ascii_upper 112]"
    by simp
  ultimately have 3: "bucketOf ascii_only ?p = Inr (js ''P'')"
    by (simp add: charAt0_def ascii_upper_def)
  from 1 2 3 show ?thesis by (intro conjI)
qed

text \<open>
  The claim as worded fails in two ways. A group of white space only is not empty, and
  the bucket is the first character of the name. And a group that is not a string, which
  \<open>normalizeOne\<close> produces from a payload with a numeric group, has no bucket: \<open>bucketOf\<close>
  raises a TypeError.
\<close>

theorem bucketOf_blank_group_counterexample:
  "b_group \<lparr> b_id = js ''2'', b_name = js ''apple'', b_description = JUndef,
             b_imageUrl = JUndef, b_group = JStr (js '' ''), b_color = JUndef \<rparr> = JStr (js '' '')
   \<and> bucketOf ascii_only
        \<lparr> b_id = js ''2'', b_name = js ''apple'', b_description = JUndef,
          b_imageUrl = JUndef, b_group = JStr (js '' ''), b_color = JUndef \<rparr> = Inr (js ''A'')
   \<and> bucketOf ascii_only
        \<lparr> b_id = js ''2'', b_name = js ''apple'', b_description = JUndef,
          b_imageUrl = JUndef, b_group = JStr (js '' ''), b_color = JUndef \<rparr> \<noteq> Inr (js '' '')
   \<and> normalizeOne (JObj [(js ''id'', JStr (js ''1'')), (js ''name'', JStr (js ''Lime'')),
                          (js ''group'', JNum (js ''3''))])
     = Inr \<lparr> b_id = js ''1'', b_name = js ''Lime'', b_description = JStr [],
             b_imageUrl = JStr [], b_group = JNum (js ''3''), b_color = JStr [] \<rparr>
   \<and> bucketOf ascii_only
        \<lparr> b_id = js ''1'', b_name = js ''Lime'', b_description = JStr [],
          b_imageUrl = JStr [], b_group = JNum (js ''3''), b_color = JStr [] \<rparr> = Inl TypeError"
  by (simp add: bucketOf_def trim_def js_space_def toUpperCase_def is_ascii_def
      ascii_upper_def charAt0_def normalizeOne_def nc_def nullish_def)

section \<open>The Gallery view's default selection (C9)\<close>

lemma traverse_total:
  "(\<forall>x \<in> set xs. f x = Inr (g x)) \<Longrightarrow> traverse f xs = Inr (map g xs)"
  by (induction xs) simp_all

lemma set_add_foldl_set: "set (foldl set_add acc xs) = set acc \<union> set xs"
  by (induction xs arbitrary: acc) (auto simp: set_add_def)

lemma set_add_foldl_distinct: "distinct acc \<Longrightarrow> distinct (foldl set_add acc xs)"
  by (induction xs arbitrary: acc) (auto simp: set_add_def)

lemma allBuckets_typed:
  assumes "\<forall>b \<in> set all. typed_optional (b_group b)"
  shows "GalleryView_allBuckets U all = Inr (sort (foldl set_add [] (map (bucket_spec U) all)))"
proof -
  from assms have "\<forall>b \<in> set all. bucketOf U b = Inr (bucket_spec U b)"
    by (simp add: bucketOf_typed)
  then have "traverse (bucketOf U) all = Inr (map (bucket_spec U) all)"
    by (rule traverse_total)
  then show ?thesis
    by (simp add: GalleryView_allBuckets_def)
qed

text \<open>
  C9, as the code has it. For records whose group is a string or absent, \<open>allBuckets\<close>
  is the list of the distinct buckets, sorted as strings. While no bucket is active the
  effect selects the first
  \<open>min(3, n)\<close> of them, which for loaded records is a non-empty selection; with the buckets
  Citrus, Mint, Berry, Tropical it selects Berry, Citrus, Mint. While the selection is
  non-empty the effect leaves it as it is, whatever records are loaded later.
\<close>

theorem GalleryView_autoselect_spec:
  "((\<forall>b \<in> set all. typed_optional (b_group b)) \<longrightarrow>
      (\<exists>bs. GalleryView_allBuckets U all = Inr bs \<and> sorted bs \<and> distinct bs
         \<and> set bs = bucket_spec U ` set all
         \<and> (all \<noteq> [] \<longrightarrow> bs \<noteq> [])
         \<and> (gv_all st = all \<and> gv_active st = [] \<longrightarrow>
              GalleryView_effect U st = Inr (st\<lparr> gv_active := take (min 3 (length bs)) bs \<rparr>))))
   \<and> GalleryView_autoselect [] buckets = take (min 3 (length buckets)) buckets
   \<and> (active \<noteq> [] \<longrightarrow> GalleryView_autoselect active buckets = active)
   \<and> (gv_active st \<noteq> [] \<and> GalleryView_effect U (st\<lparr> gv_all := later \<rparr>) = Inr st' \<longrightarrow>
        gv_active st' = gv_active st)
   \<and> GalleryView_autoselect []
         (sort (foldl set_add [] [js ''Citrus'', js ''Mint'', js ''Berry'', js ''Tropical'']))
        = [js ''Berry'', js ''Citrus'', js ''Mint'']"
proof (intro conjI impI)
  assume wt: "\<forall>b \<in> set all. typed_optional (b_group b)"
  let ?bs = "sort (foldl set_add [] (map (bucket_spec U) all))"
  have e: "GalleryView_allBuckets U all = Inr ?bs" using wt by (rule allBuckets_typed)
  have s: "sorted ?bs" by simp
  have d: "distinct ?bs" by (simp add: set_add_foldl_distinct)
  have m: "set ?bs = bucket_spec U ` set all" by (simp add: set_add_foldl_set)
  have n: "all \<noteq> [] \<longrightarrow> ?bs \<noteq> []"
  proof
    assume "all \<noteq> []"
    then have "set ?bs \<noteq> {}" unfolding m by simp
    then show "?bs \<noteq> []" by (simp only: set_empty not_False_eq_True)
  qed
  have f: "gv_all st = all \<and> gv_active st = [] \<longrightarrow>
              GalleryView_effect U st = Inr (st\<lparr> gv_active := take (min 3 (length ?bs)) ?bs \<rparr>)"
  proof
    assume a: "gv_all st = all \<and> gv_active st = []"
    then have "GalleryView_effect U st = Inr (st\<lparr> gv_active := GalleryView_autoselect [] ?bs \<rparr>)"
      using e by (simp add: GalleryView_effect_def)
    moreover have "GalleryView_autoselect [] ?bs = take (min 3 (length ?bs)) ?bs"
      by (simp add: GalleryView_autoselect_def)
    ultimately show "GalleryView_effect U st = Inr (st\<lparr> gv_active := take (min 3 (length ?bs)) ?bs \<rparr>)"
      by simp
  qed
  from e s d m n f
  show "\<exists>bs. GalleryView_allBuckets U all = Inr bs \<and> sorted bs \<and> distinct bs
         \<and> set bs = bucket_spec U ` set all
         \<and> (all \<noteq> [] \<longrightarrow> bs \<noteq> [])
         \<and> (gv_all st = all \<and> gv_active st = [] \<longrightarrow>
              GalleryView_effect U st = Inr (st\<lparr> gv_active := take (min 3 (length bs)) bs \<rparr>))"
    by (intro exI [of _ ?bs] conjI)
next
  show "GalleryView_autoselect [] buckets = take (min 3 (length buckets)) buckets"
    by (simp add: GalleryView_autoselect_def)
next
  assume "active \<noteq> []"
  then show "GalleryView_autoselect active buckets = active"
    by (simp add: GalleryView_autoselect_def)
next
  assume a: "gv_active st \<noteq> [] \<and> GalleryView_effect U (st\<lparr> gv_all := later \<rparr>) = Inr st'"
  then show "gv_active st' = gv_active st"
    by (auto simp: GalleryView_effect_def GalleryView_autoselect_def split: sum.splits)
next
  show "GalleryView_autoselect []
         (sort (foldl set_add [] [js ''Citrus'', js ''Mint'', js ''Berry'', js ''Tropical'']))
        = [js ''Berry'', js ''Citrus'', js ''Mint'']"
    by (simp add: GalleryView_autoselect_def set_add_def)
qed

theorem GalleryView_autoselect_spec_witness:
  "GalleryView_effect ascii_only
     \<lparr> gv_all =
         [(plain_bean ''1'' ''Lime'')\<lparr> b_group := JStr (js ''Citrus'') \<rparr>,
          (plain_bean ''2'' ''Spearmint'')\<lparr> b_group := JStr (js ''Mint'') \<rparr>,
          (plain_bean ''3'' ''Cherry'')\<lparr> b_group := JStr (js ''Berry'') \<rparr>,
          (plain_bean ''4'' ''Mango'')\<lparr> b_group := JStr (js ''Tropical'') \<rparr>],
       gv_loading = False, gv_error = None, gv_active = [] \<rparr>
   = Inr \<lparr> gv_all =
         [(plain_bean ''1'' ''Lime'')\<lparr> b_group := JStr (js ''Citrus'') \<rparr>,
          (plain_bean ''2'' ''Spearmint'')\<lparr> b_group := JStr (js ''Mint'') \<rparr>,
          (plain_bean ''3'' ''Cherry'')\<lparr> b_group := JStr (js ''Berry'') \<rparr>,
          (plain_bean ''4'' ''Mango'')\<lparr> b_group := JStr (js ''Tropical'') \<rparr>],
       gv_loading = False, gv_error = None,
       gv_active = [js ''Berry'', js ''Citrus'', js ''Mint''] \<rparr>
   \<and> GalleryView_autoselect [js ''Mint''] [js ''Berry'', js ''Citrus''] = [js ''Mint'']
   \<and> GalleryView_effect ascii_only
         \<lparr> gv_all = five_beans, gv_loading = False, gv_error = None,
           gv_active = [js ''Mint''] \<rparr>
       = Inr \<lparr> gv_all = five_beans, gv_loading = False, gv_error = None,
               gv_active = [js ''Mint''] \<rparr>"
proof -
  let ?all = "[(plain_bean ''1'' ''Lime'')\<lparr> b_group := JStr (js ''Citrus'') \<rparr>,
          (plain_bean ''2'' ''Spearmint'')\<lparr> b_group := JStr (js ''Mint'') \<rparr>,
          (plain_bean ''3'' ''Cherry'')\<lparr> b_group := JStr (js ''Berry'') \<rparr>,
          (plain_bean ''4'' ''Mango'')\<lparr> b_group := JStr (js ''Tropical'') \<rparr>]"
  let ?st = "\<lparr> gv_all = ?all, gv_loading = False, gv_error = None, gv_active = [] \<rparr>"
  have wt: "\<forall>b \<in> set ?all. typed_optional (b_group b)"
    by (simp add: typed_optional_def)
  have ab: "GalleryView_allBuckets ascii_only ?all =
      Inr [js ''Berry'', js ''Citrus'', js ''Mint'', js ''Tropical'']"
    by (simp add: GalleryView_allBuckets_def plain_bean_def bucketOf_def
        trim_def js_space_def set_add_def)
  note th = GalleryView_autoselect_spec [where U = ascii_only]
  from th [of ?all ?st] wt
  obtain bs where bs: "GalleryView_allBuckets ascii_only ?all = Inr bs"
    and eff: "gv_all ?st = ?all \<and> gv_active ?st = [] \<longrightarrow>
              GalleryView_effect ascii_only ?st =
                Inr (?st\<lparr> gv_active := take (min 3 (length bs)) bs \<rparr>)"
    by blast
  from bs ab have "bs = [js ''Berry'', js ''Citrus'', js ''Mint'', js ''Tropical'']" by simp
  with eff have 1: "GalleryView_effect ascii_only ?st =
      Inr \<lparr> gv_all = ?all, gv_loading = False, gv_error = None,
            gv_active = [js ''Berry'', js ''Citrus'', js ''Mint''] \<rparr>"
    by simp
  from th [where active = "[js ''Mint'']" and buckets = "[js ''Berry'', js ''Citrus'']"]
  have 2: "GalleryView_autoselect [js ''Mint''] [js ''Berry'', js ''Citrus''] = [js ''Mint'']"
    by simp
  let ?s0 = "\<lparr> gv_all = [], gv_loading = False, gv_error = None, gv_active = [js ''Mint''] \<rparr>"
  have ab5: "GalleryView_allBuckets ascii_only five_beans =
      Inr [js ''A'', js ''B'', js ''C'', js ''D'', js ''E'']"
    by (simp add: GalleryView_allBuckets_def five_beans_def plain_bean_def bucketOf_def
        trim_def toUpperCase_def is_ascii_def ascii_upper_def charAt0_def set_add_def)
  obtain s where s: "GalleryView_effect ascii_only (?s0\<lparr> gv_all := five_beans \<rparr>) = Inr s"
    by (simp add: GalleryView_effect_def ab5)
  from th [where st = ?s0 and later = five_beans and st' = s] s
  have act: "gv_active s = [js ''Mint'']" by simp
  from s have "gv_all s = five_beans \<and> gv_loading s = False \<and> gv_error s = None"
    by (auto simp: GalleryView_effect_def split: sum.splits)
  with act have "s = \<lparr> gv_all = five_beans, gv_loading = False, gv_error = None,
               gv_active = [js ''Mint''] \<rparr>"
    by (cases s) simp
  with s have 3: "GalleryView_effect ascii_only
         \<lparr> gv_all = five_beans, gv_loading = False, gv_error = None,
           gv_active = [js ''Mint''] \<rparr>
       = Inr \<lparr> gv_all = five_beans, gv_loading = False, gv_error = None,
               gv_active = [js ''Mint''] \<rparr>"
    by simp
  from 1 2 3 show ?thesis by (intro conjI)
qed

text \<open>
  The claim as worded fails for loaded records whose group is not a string. From a
  payload with a numeric group \<open>fetchBeans\<close> returns such a record; with it loaded and no
  bucket active, computing the buckets raises a TypeError and nothing is selected.
\<close>

theorem GalleryView_autoselect_counterexample:
  "fetchBeans
     (Inr (JArr [JObj [(js ''id'', JStr (js ''1'')), (js ''name'', JStr (js ''Lime'')),
                       (js ''group'', JNum (js ''3''))]]))
     (Inl NetworkError)
   = Inr [\<lparr> b_id = js ''1'', b_name = js ''Lime'', b_description = JStr [],
            b_imageUrl = JStr [], b_group = JNum (js ''3''), b_color = JStr [] \<rparr>]
   \<and> GalleryView_effect ascii_only
        \<lparr> gv_all = [\<lparr> b_id = js ''1'', b_name = js ''Lime'', b_description = JStr [],
                       b_imageUrl = JStr [], b_group = JNum (js ''3''), b_color = JStr [] \<rparr>],
          gv_loading = False, gv_error = None, gv_active = [] \<rparr>
     = Inl TypeError"
  by (simp add: fetchBeans_def unwrap_def array_map_def normalizeOne_def nc_def nullish_def
      has_id_and_name_def GalleryView_effect_def GalleryView_allBuckets_def bucketOf_def)

section \<open>The List view's sort (C6)\<close>

lemma compare_beans_le:
  "compare_beans U k d a b \<le> 0 \<longleftrightarrow>
     (if d = Asc then sort_text U k a \<le> sort_text U k b else sort_text U k b \<le> sort_text U k a)"
  by (auto simp: compare_beans_def Let_def)

lemma compare_beans_same: "sort_text U k a = sort_text U k b \<Longrightarrow> compare_beans U k d a b = 0"
  by (simp add: compare_beans_def)

lemma compare_beans_pos: "0 < compare_beans U k d a b \<Longrightarrow> sort_text U k a \<noteq> sort_text U k b"
  by (auto simp: compare_beans_def Let_def split: if_splits)

lemma insert_by_mset: "mset (insert_by cmp x ys) = add_mset x (mset ys)"
  by (induction ys) simp_all

lemma insert_by_set: "set (insert_by cmp x ys) = insert x (set ys)"
  by (induction ys) auto

lemma array_sort_mset: "mset (array_sort cmp xs) = mset xs"
  by (induction xs) (simp_all add: array_sort_def insert_by_mset)

lemma array_sort_set: "set (array_sort cmp xs) = set xs"
  by (induction xs) (simp_all add: array_sort_def insert_by_set)

lemma insert_by_sorted:
  assumes le: "\<And>a b. cmp a b \<le> 0 \<longleftrightarrow> f a \<le> (f b :: 'k :: linorder)"
  shows "sorted_wrt (\<lambda>a b. f a \<le> f b) ys \<Longrightarrow> sorted_wrt (\<lambda>a b. f a \<le> f b) (insert_by cmp x ys)"
proof (induction ys)
  case Nil
  then show ?case by simp
next
  case (Cons y ys)
  show ?case
  proof (cases "cmp x y \<le> 0")
    case True
    then have "f x \<le> f y" by (simp add: le)
    with Cons.prems True show ?thesis by auto
  next
    case False
    then have "f y \<le> f x" using le [of x y] by simp
    with Cons False show ?thesis by (auto simp: insert_by_set)
  qed
qed

lemma array_sort_sorted:
  assumes le: "\<And>a b. cmp a b \<le> 0 \<longleftrightarrow> f a \<le> (f b :: 'k :: linorder)"
  shows "sorted_wrt (\<lambda>a b. f a \<le> f b) (array_sort cmp xs)"
proof (induction xs)
  case Nil
  then show ?case by (simp add: array_sort_def)
next
  case (Cons x xs)
  have "array_sort cmp (x # xs) = insert_by cmp x (array_sort cmp xs)"
    by (simp add: array_sort_def)
  with Cons insert_by_sorted [of cmp f, OF le] show ?case by simp
qed

lemma insert_by_sorted_rev:
  assumes le: "\<And>a b. cmp a b \<le> 0 \<longleftrightarrow> f b \<le> (f a :: 'k :: linorder)"
  shows "sorted_wrt (\<lambda>a b. f b \<le> f a) ys \<Longrightarrow> sorted_wrt (\<lambda>a b. f b \<le> f a) (insert_by cmp x ys)"
proof (induction ys)
  case Nil
  then show ?case by simp
next
  case (Cons y ys)
  show ?case
  proof (cases "cmp x y \<le> 0")
    case True
    then have "f y \<le> f x" by (simp add: le)
    with Cons.prems True show ?thesis by auto
  next
    case False
    then have "f x \<le> f y" using le [of x y] by simp
    with Cons False show ?thesis by (auto simp: insert_by_set)
  qed
qed

lemma array_sort_sorted_rev:
  assumes le: "\<And>a b. cmp a b \<le> 0 \<longleftrightarrow> f b \<le> (f a :: 'k :: linorder)"
  shows "sorted_wrt (\<lambda>a b. f b \<le> f a) (array_sort cmp xs)"
proof (induction xs)
  case Nil
  then show ?case by (simp add: array_sort_def)
next
  case (Cons x xs)
  have "array_sort cmp (x # xs) = insert_by cmp x (array_sort cmp xs)"
    by (simp add: array_sort_def)
  with Cons insert_by_sorted_rev [of cmp f, OF le] show ?case by simp
qed

lemma insert_by_stable:
  assumes same: "\<And>a b. f a = f b \<Longrightarrow> cmp a b \<le> 0"
  shows "filter (\<lambda>y. f y = t) (insert_by cmp x ys) =
         (if f x = t then x # filter (\<lambda>y. f y = t) ys else filter (\<lambda>y. f y = t) ys)"
proof (induction ys)
  case Nil
  then show ?case by simp
next
  case (Cons y ys)
  show ?case
  proof (cases "cmp x y \<le> 0")
    case True
    then show ?thesis by simp
  next
    case False
    then have "f x \<noteq> f y" using same [of x y] by auto
    with Cons False show ?thesis by auto
  qed
qed

lemma array_sort_stable:
  assumes same: "\<And>a b. f a = f b \<Longrightarrow> cmp a b \<le> 0"
  shows "filter (\<lambda>y. f y = t) (array_sort cmp xs) = filter (\<lambda>y. f y = t) xs"
proof (induction xs)
  case Nil
  then show ?case by (simp add: array_sort_def)
next
  case (Cons x xs)
  have "array_sort cmp (x # xs) = insert_by cmp x (array_sort cmp xs)"
    by (simp add: array_sort_def)
  with Cons insert_by_stable [of f cmp t x, OF same] show ?case by simp
qed

text \<open>
  C6. The sorted collection is a rearrangement of the filtered one, ordered by the
  lower-cased key (name or id) compared as strings, ascending or descending as chosen,
  and records with equal keys keep the order they had. With the key name and the
  direction desc, beans named Apple, cherry, Banana come out as cherry, Banana, Apple.
\<close>

theorem ListView_sorted_spec:
  "mset (ListView_sorted U k d xs) = mset xs
   \<and> (d = Asc \<longrightarrow> sorted_wrt (\<lambda>a b. sort_text U k a \<le> sort_text U k b) (ListView_sorted U k d xs))
   \<and> (d = Desc \<longrightarrow> sorted_wrt (\<lambda>a b. sort_text U k b \<le> sort_text U k a) (ListView_sorted U k d xs))
   \<and> filter (\<lambda>b. sort_text U k b = t) (ListView_sorted U k d xs) = filter (\<lambda>b. sort_text U k b = t) xs
   \<and> sort_text U SortName b = toLowerCase U (b_name b)
   \<and> sort_text U SortId b = toLowerCase U (b_id b)
   \<and> map b_name (ListView_sorted U SortName Desc
        [plain_bean ''1'' ''Apple'', plain_bean ''2'' ''cherry'', plain_bean ''3'' ''Banana''])
      = [js ''cherry'', js ''Banana'', js ''Apple'']"
proof (intro conjI impI)
  show "mset (ListView_sorted U k d xs) = mset xs"
    by (simp add: ListView_sorted_def array_sort_mset)
next
  assume "d = Asc"
  then have "\<And>a b. compare_beans U k d a b \<le> 0 \<longleftrightarrow> sort_text U k a \<le> sort_text U k b"
    by (simp add: compare_beans_le)
  then show "sorted_wrt (\<lambda>a b. sort_text U k a \<le> sort_text U k b) (ListView_sorted U k d xs)"
    unfolding ListView_sorted_def by (rule array_sort_sorted)
next
  assume "d = Desc"
  then have "\<And>a b. compare_beans U k d a b \<le> 0 \<longleftrightarrow> sort_text U k b \<le> sort_text U k a"
    by (simp add: compare_beans_le)
  then show "sorted_wrt (\<lambda>a b. sort_text U k b \<le> sort_text U k a) (ListView_sorted U k d xs)"
    unfolding ListView_sorted_def by (rule array_sort_sorted_rev)
next
  have "\<And>a b. sort_text U k a = sort_text U k b \<Longrightarrow> compare_beans U k d a b \<le> 0"
    by (simp add: compare_beans_same)
  then show "filter (\<lambda>b. sort_text U k b = t) (ListView_sorted U k d xs) = filter (\<lambda>b. sort_text U k b = t) xs"
    unfolding ListView_sorted_def by (rule array_sort_stable)
next
  show "sort_text U SortName b = toLowerCase U (b_name b)" by (simp add: sort_text_def)
next
  show "sort_text U SortId b = toLowerCase U (b_id b)" by (simp add: sort_text_def)
next
  show "map b_name (ListView_sorted U SortName Desc
        [plain_bean ''1'' ''Apple'', plain_bean ''2'' ''cherry'', plain_bean ''3'' ''Banana''])
      = [js ''cherry'', js ''Banana'', js ''Apple'']"
    by (simp add: ListView_sorted_def array_sort_def compare_beans_def sort_text_def
        plain_bean_def toLowerCase_def is_ascii_def ascii_lower_def)
qed

theorem ListView_sorted_spec_witness:
  "map b_id (ListView_sorted ascii_only SortName Asc
        [plain_bean ''1'' ''lime'', plain_bean ''2'' ''Apple'', plain_bean ''3'' ''LIME''])
     = [js ''2'', js ''1'', js ''3'']
   \<and> sorted_wrt (\<lambda>a b. sort_text ascii_only SortName a \<le> sort_text ascii_only SortName b)
       (ListView_sorted ascii_only SortName Asc
        [plain_bean ''1'' ''lime'', plain_bean ''2'' ''Apple'', plain_bean ''3'' ''LIME''])
   \<and> sorted_wrt (\<lambda>a b. sort_text ascii_only SortId b \<le> sort_text ascii_only SortId a)
       (ListView_sorted ascii_only SortId Desc
        [plain_bean ''1'' ''lime'', plain_bean ''2'' ''Apple''])
   \<and> map b_id (ListView_sorted ascii_only SortId Desc
        [plain_bean ''1'' ''lime'', plain_bean ''2'' ''Apple'']) = [js ''2'', js ''1'']"
proof -
  let ?xs = "[plain_bean ''1'' ''lime'', plain_bean ''2'' ''Apple'', plain_bean ''3'' ''LIME'']"
  let ?ys = "[plain_bean ''1'' ''lime'', plain_bean ''2'' ''Apple'']"
  have 1: "map b_id (ListView_sorted ascii_only SortName Asc ?xs) = [js ''2'', js ''1'', js ''3'']"
    by (simp add: ListView_sorted_def array_sort_def compare_beans_def sort_text_def
        plain_bean_def toLowerCase_def is_ascii_def ascii_lower_def)
  have 4: "map b_id (ListView_sorted ascii_only SortId Desc ?ys) = [js ''2'', js ''1'']"
    by (simp add: ListView_sorted_def array_sort_def compare_beans_def sort_text_def
        plain_bean_def toLowerCase_def is_ascii_def ascii_lower_def)
  from ListView_sorted_spec [of ascii_only SortName Asc ?xs]
  have 2: "sorted_wrt (\<lambda>a b. sort_text ascii_only SortName a \<le> sort_text ascii_only SortName b)
       (ListView_sorted ascii_only SortName Asc ?xs)" by blast
  from ListView_sorted_spec [of ascii_only SortId Desc ?ys]
  have 3: "sorted_wrt (\<lambda>a b. sort_text ascii_only SortId b \<le> sort_text ascii_only SortId a)
       (ListView_sorted ascii_only SortId Desc ?ys)" by blast
  from 1 2 3 4 show ?thesis by (intro conjI)
qed

section \<open>The source fetcher and the bundled dataset (C3)\<close>

lemma traverse_length: "traverse f xs = Inr ys \<Longrightarrow> length ys = length xs"
  by (induction xs arbitrary: ys) (auto split: sum.splits)

lemma has_id_and_name_eq: "has_id_and_name = (\<lambda>b. b_id b \<noteq> [] \<and> b_name b \<noteq> [])"
  by (rule ext) (simp add: has_id_and_name_def)

lemma fetchBeans_collect:
  "fetchBeans respA respB =
     (case collect_spec respA of Inr r \<Rightarrow> Inr r | Inl e \<Rightarrow> collect_spec respB)"
  unfolding fetchBeans_def collect_spec_def has_id_and_name_eq ..

lemma unwrap_array: "unwrap (JArr xs) = JArr xs"
  by (simp add: unwrap_def)

lemma unwrap_data_array:
  "map_of kvs (js ''data'') = Some (JArr xs) \<Longrightarrow> unwrap (JObj kvs) = JArr xs"
  by (simp add: unwrap_def nc_def nullish_def)

lemma collect_spec_array:
  assumes "traverse normalizeOne xs = Inr bs"
    and "data = JArr xs \<or> (\<exists>kvs. data = JObj kvs \<and> map_of kvs (js ''data'') = Some (JArr xs))"
  shows "collect_spec (Inr data) = Inr (filter (\<lambda>b. b_id b \<noteq> [] \<and> b_name b \<noteq> []) bs)"
proof -
  from assms(2) have "unwrap data = JArr xs"
    by (auto simp: unwrap_array unwrap_data_array)
  with assms(1) show ?thesis
    by (simp add: collect_spec_def array_map_def)
qed

lemma ListView_load_fallback:
  assumes "(\<exists>e. fetchBeans respA respB = Inl e) \<or> fetchBeans respA respB = Inr []"
    and "array_map normalizeOne mockData = Inr ms"
  shows "ListView_load mockData True respA respB st =
           st\<lparr> lv_all := ms, lv_error := None, lv_loading := False \<rparr>"
  using assms by (auto simp: ListView_load_def)

lemma GalleryView_load_fallback:
  assumes "(\<exists>e. fetchBeans respA respB = Inl e) \<or> fetchBeans respA respB = Inr []"
    and "array_map normalizeOne mockData = Inr ms"
  shows "GalleryView_load mockData True respA respB st =
           st\<lparr> gv_all := ms, gv_error := None, gv_loading := False \<rparr>"
  using assms by (auto simp: GalleryView_load_def)

lemma ListView_load_error:
  "lv_error (ListView_load mockData alive respA respB st) = None \<or>
   lv_error (ListView_load mockData alive respA respB st) = lv_error st"
  by (simp add: ListView_load_def split: sum.splits)

lemma GalleryView_load_error:
  "gv_error (GalleryView_load mockData alive respA respB st) = None \<or>
   gv_error (GalleryView_load mockData alive respA respB st) = gv_error st"
  by (simp add: GalleryView_load_def split: sum.splits)

lemma ListView_render_loaded:
  "ListView_render U (ListView_init\<lparr> lv_all := ms, lv_error := None, lv_loading := False \<rparr>) =
     Inr (RecordsView (ListView_sorted U SortName Asc ms))"
  by (simp add: ListView_render_def ListView_init_def ListView_filtered_def trim_Nil
      toLowerCase_Nil)

lemma GalleryView_render_loaded:
  assumes "\<forall>b \<in> set ms. typed_optional (b_group b)"
  shows "GalleryView_render U (GalleryView_init\<lparr> gv_all := ms, gv_error := None, gv_loading := False \<rparr>) =
     Inr (RecordsView ms)"
  using allBuckets_typed [OF assms, of U]
  by (simp add: GalleryView_render_def GalleryView_init_def GalleryView_filtered_def)
text \<open>
  C3. From a response of endpoint A that is a bare array, or an object whose \<open>data\<close> is an
  array, \<open>fetchBeans\<close> returns the normalized elements that have a non-empty id and a
  non-empty name. In general it is the procedure of the specification applied to
  endpoint A and, when that raises, the same procedure applied to endpoint B; when both
  requests fail it raises. When \<open>fetchBeans\<close> raises or returns no record, the load effect
  of the List view and of the Gallery view stores the bundled dataset, each of its
  records normalized and none dropped, clears the error and ends loading; the List view
  then shows these records in its default order and the Gallery view (for groups that
  are strings or absent) shows them all, neither of them an error text. No outcome of
  the requests makes the load effect of a fresh view set an error text.
\<close>

theorem fetchBeans_fallback_spec:
  "(traverse normalizeOne xs = Inr bs
      \<and> (data = JArr xs \<or> (\<exists>kvs. data = JObj kvs \<and> map_of kvs (js ''data'') = Some (JArr xs)))
      \<longrightarrow> fetchBeans (Inr data) respB = Inr (filter (\<lambda>b. b_id b \<noteq> [] \<and> b_name b \<noteq> []) bs))
   \<and> fetchBeans respA respB =
       (case collect_spec respA of Inr r \<Rightarrow> Inr r | Inl e \<Rightarrow> collect_spec respB)
   \<and> fetchBeans (Inl ea) (Inl eb) = Inl eb
   \<and> (((\<exists>e. fetchBeans respA respB = Inl e) \<or> fetchBeans respA respB = Inr [])
        \<and> traverse normalizeOne raw = Inr ms
      \<longrightarrow> ListView_load (JArr raw) True respA respB ListView_init
            = ListView_init\<lparr> lv_all := ms, lv_error := None, lv_loading := False \<rparr>
        \<and> GalleryView_load (JArr raw) True respA respB GalleryView_init
            = GalleryView_init\<lparr> gv_all := ms, gv_error := None, gv_loading := False \<rparr>
        \<and> length ms = length raw
        \<and> ListView_render U (ListView_load (JArr raw) True respA respB ListView_init)
            = Inr (RecordsView (ListView_sorted U SortName Asc ms))
        \<and> ((\<forall>b \<in> set ms. typed_optional (b_group b)) \<longrightarrow>
             GalleryView_render U (GalleryView_load (JArr raw) True respA respB GalleryView_init)
               = Inr (RecordsView ms)))
   \<and> lv_error (ListView_load mockData alive respA respB ListView_init) = None
   \<and> gv_error (GalleryView_load mockData alive respA respB GalleryView_init) = None"
proof (intro conjI impI)
  assume a: "traverse normalizeOne xs = Inr bs
      \<and> (data = JArr xs \<or> (\<exists>kvs. data = JObj kvs \<and> map_of kvs (js ''data'') = Some (JArr xs)))"
  then have "collect_spec (Inr data) = Inr (filter (\<lambda>b. b_id b \<noteq> [] \<and> b_name b \<noteq> []) bs)"
    using collect_spec_array [of xs bs data] by blast
  then show "fetchBeans (Inr data) respB = Inr (filter (\<lambda>b. b_id b \<noteq> [] \<and> b_name b \<noteq> []) bs)"
    by (simp add: fetchBeans_collect)
next
  show "fetchBeans respA respB =
       (case collect_spec respA of Inr r \<Rightarrow> Inr r | Inl e \<Rightarrow> collect_spec respB)"
    by (rule fetchBeans_collect)
next
  show "fetchBeans (Inl ea) (Inl eb) = Inl eb"
    by (simp add: fetchBeans_def)
next
  assume h: "((\<exists>e. fetchBeans respA respB = Inl e) \<or> fetchBeans respA respB = Inr [])
        \<and> traverse normalizeOne raw = Inr ms"
  then have m: "array_map normalizeOne (JArr raw) = Inr ms"
    by (simp add: array_map_def)
  from h m show l: "ListView_load (JArr raw) True respA respB ListView_init
            = ListView_init\<lparr> lv_all := ms, lv_error := None, lv_loading := False \<rparr>"
    using ListView_load_fallback [of respA respB "JArr raw" ms ListView_init] by blast
  from h m show g: "GalleryView_load (JArr raw) True respA respB GalleryView_init
            = GalleryView_init\<lparr> gv_all := ms, gv_error := None, gv_loading := False \<rparr>"
    using GalleryView_load_fallback [of respA respB "JArr raw" ms GalleryView_init] by blast
  from h show "length ms = length raw"
    using traverse_length [of normalizeOne raw ms] by blast
  show "ListView_render U (ListView_load (JArr raw) True respA respB ListView_init)
            = Inr (RecordsView (ListView_sorted U SortName Asc ms))"
    unfolding l by (rule ListView_render_loaded)
  assume "\<forall>b \<in> set ms. typed_optional (b_group b)"
  then show "GalleryView_render U (GalleryView_load (JArr raw) True respA respB GalleryView_init)
               = Inr (RecordsView ms)"
    unfolding g by (rule GalleryView_render_loaded)
next
  show "lv_error (ListView_load mockData alive respA respB ListView_init) = None"
    using ListView_load_error [of mockData alive respA respB ListView_init]
    by (simp add: ListView_init_def)
next
  show "gv_error (GalleryView_load mockData alive respA respB GalleryView_init) = None"
    using GalleryView_load_error [of mockData alive respA respB GalleryView_init]
    by (simp add: GalleryView_init_def)
qed

theorem fetchBeans_fallback_spec_witness:
  "fetchBeans
     (Inr (JObj [(js ''data'',
        JArr [JObj [(js ''id'', JNum (js ''7'')), (js ''name'', JStr (js ''Lime''))],
              JObj [(js ''flavor'', JStr (js ''Pear''))]])]))
     (Inl NetworkError)
   = Inr [plain_bean ''7'' ''Lime'']
   \<and> lv_all (ListView_load (JArr [JObj [(js ''flavor'', JStr (js ''Pear''))]]) True
         (Inl NetworkError) (Inl NetworkError) ListView_init)
     = [plain_bean [] ''Pear'']
   \<and> gv_all (GalleryView_load (JArr [JObj [(js ''flavor'', JStr (js ''Pear''))]]) True
         (Inl NetworkError) (Inl NetworkError) GalleryView_init)
     = [plain_bean [] ''Pear'']
   \<and> ListView_render ascii_only
        (ListView_load (JArr [JObj [(js ''flavor'', JStr (js ''Pear''))]]) True
         (Inl NetworkError) (Inl NetworkError) ListView_init)
     = Inr (RecordsView [plain_bean [] ''Pear''])
   \<and> GalleryView_render ascii_only
        (GalleryView_load (JArr [JObj [(js ''flavor'', JStr (js ''Pear''))]]) True
         (Inl NetworkError) (Inl NetworkError) GalleryView_init)
     = Inr (RecordsView [plain_bean [] ''Pear''])"
proof -
  let ?r1 = "JObj [(js ''id'', JNum (js ''7'')), (js ''name'', JStr (js ''Lime''))]"
  let ?r2 = "JObj [(js ''flavor'', JStr (js ''Pear''))]"
  let ?b1 = "plain_bean ''7'' ''Lime''"
  let ?b2 = "plain_bean [] ''Pear''"
  let ?data = "JObj [(js ''data'', JArr [?r1, ?r2])]"
  have t1: "traverse normalizeOne [?r1, ?r2] = Inr [?b1, ?b2]"
    by (simp add: normalizeOne_def nc_def nullish_def plain_bean_def)
  have t2: "traverse normalizeOne [?r2] = Inr [?b2]"
    by (simp add: normalizeOne_def nc_def nullish_def plain_bean_def)
  have sh: "?data = JArr [?r1, ?r2] \<or>
      (\<exists>kvs. ?data = JObj kvs \<and> map_of kvs (js ''data'') = Some (JArr [?r1, ?r2]))"
    by simp
  have fail: "(\<exists>e. fetchBeans (Inl NetworkError) (Inl NetworkError) = Inl e)
      \<or> fetchBeans (Inl NetworkError) (Inl NetworkError) = Inr []"
    by (simp add: fetchBeans_def)
  have ty: "\<forall>b \<in> set [?b2]. typed_optional (b_group b)"
    by (simp add: typed_optional_def plain_bean_def)
  have f1: "filter (\<lambda>b. b_id b \<noteq> [] \<and> b_name b \<noteq> []) [?b1, ?b2] = [?b1]"
    by (simp add: plain_bean_def)
  have so: "ListView_sorted ascii_only SortName Asc [?b2] = [?b2]"
    by (simp add: ListView_sorted_def array_sort_def)
  note th = fetchBeans_fallback_spec [where xs = "[?r1, ?r2]" and bs = "[?b1, ?b2]"
      and data = ?data and respB = "Inl NetworkError" and respA = "Inl NetworkError"
      and raw = "[?r2]" and ms = "[?b2]" and U = ascii_only]
  from th t1 sh have "fetchBeans (Inr ?data) (Inl NetworkError) =
      Inr (filter (\<lambda>b. b_id b \<noteq> [] \<and> b_name b \<noteq> []) [?b1, ?b2])"
    by blast
  then have 1: "fetchBeans (Inr ?data) (Inl NetworkError) = Inr [?b1]"
    by (simp only: f1)
  from th t2 fail
  have l: "ListView_load (JArr [?r2]) True (Inl NetworkError) (Inl NetworkError) ListView_init
      = ListView_init\<lparr> lv_all := [?b2], lv_error := None, lv_loading := False \<rparr>"
    by blast
  from th t2 fail
  have g: "GalleryView_load (JArr [?r2]) True (Inl NetworkError) (Inl NetworkError) GalleryView_init
      = GalleryView_init\<lparr> gv_all := [?b2], gv_error := None, gv_loading := False \<rparr>"
    by blast
  from th t2 fail
  have "ListView_render ascii_only (ListView_load (JArr [?r2]) True
         (Inl NetworkError) (Inl NetworkError) ListView_init)
      = Inr (RecordsView (ListView_sorted ascii_only SortName Asc [?b2]))"
    by blast
  then have lr: "ListView_render ascii_only (ListView_load (JArr [?r2]) True
         (Inl NetworkError) (Inl NetworkError) ListView_init) = Inr (RecordsView [?b2])"
    by (simp only: so)
  from th t2 fail ty
  have r: "GalleryView_render ascii_only (GalleryView_load (JArr [?r2]) True
         (Inl NetworkError) (Inl NetworkError) GalleryView_init) = Inr (RecordsView [?b2])"
    by blast
  from l have 2: "lv_all (ListView_load (JArr [?r2]) True (Inl NetworkError)
      (Inl NetworkError) ListView_init) = [?b2]"
    by simp
  from g have 3: "gv_all (GalleryView_load (JArr [?r2]) True (Inl NetworkError)
      (Inl NetworkError) GalleryView_init) = [?b2]"
    by simp
  from 1 2 3 lr r show ?thesis by (intro conjI)
qed

section \<open>Failures on the deep-link path (C4)\<close>

















section \<open>Prev and Next (C5)\<close>

lemma indexOf_ge: "- 1 \<le> indexOf xs x"
  by (induction xs) (auto simp: Let_def)

lemma indexOf_absent: "x \<notin> set xs \<Longrightarrow> indexOf xs x = - 1"
  by (induction xs) (auto simp: Let_def)

lemma indexOf_present:
  "x \<in> set xs \<Longrightarrow> 0 \<le> indexOf xs x \<and> indexOf xs x < int (length xs) \<and> xs ! nat (indexOf xs x) = x"
proof (induction xs)
  case Nil
  then show ?case by simp
next
  case (Cons y ys)
  show ?case
  proof (cases "y = x")
    case True
    then show ?thesis by simp
  next
    case False
    with Cons have ih: "0 \<le> indexOf ys x \<and> indexOf ys x < int (length ys) \<and> ys ! nat (indexOf ys x) = x"
      by simp
    then have "nat (indexOf ys x + 1) = Suc (nat (indexOf ys x))" by linarith
    with False ih show ?thesis by (simp add: Let_def)
  qed
qed

lemma stableIds_length: "length (stableIds U bs) = length bs"
  by (simp add: stableIds_def)

lemma stableIds_nth: "n < length bs \<Longrightarrow> stableIds U bs ! n = stableId U (bs ! n) n"
  by (simp add: stableIds_def nth_enumerate_eq)

lemma effect_A_index_range:
  assumes "ns_beans passed = Some (b # bs)"
  shows "0 \<le> dv_idx (effect_A U i passed st)
       \<and> dv_idx (effect_A U i passed st) < int (length (dv_ids (effect_A U i passed st)))"
proof (cases "i \<in> set (stableIds U (b # bs))")
  case True
  from indexOf_present [OF True] assms show ?thesis
    by (simp add: effect_A_def Let_def)
next
  case False
  from indexOf_absent [OF False] assms show ?thesis
    by (simp add: effect_A_def Let_def stableIds_length)
qed

lemma at_index_in_range:
  "0 \<le> k \<Longrightarrow> k < int (length xs) \<Longrightarrow> at_index xs k = Some (xs ! nat k)"
  by (simp add: at_index_def)

text \<open>
  C5. Prev is enabled exactly when the index is greater than 0, Next exactly when the
  index is at least 0 and less than the length of the identifier list minus 1. An
  enabled transition navigates to the identifier at the neighbouring position of the
  same identifier list (for Prev, when the index is not beyond the end of the list, as
  it never is after effect A), passes that list, the neighbouring index and the origin,
  and carries the record collection that was carried in; a disabled one does nothing.
  The link of a List item passes the identifiers of the sorted collection, the item's
  position and the sorted collection itself.
\<close>

theorem prev_next_spec:
  "(canPrev st \<longleftrightarrow> 0 < dv_idx st)
   \<and> (canNext st \<longleftrightarrow> 0 \<le> dv_idx st \<and> dv_idx st < int (length (dv_ids st)) - 1)
   \<and> (canPrev st \<and> dv_idx st \<le> int (length (dv_ids st)) \<longrightarrow>
        goPrev passed st =
          Some \<lparr> nav_to = js ''/detail/'' @ dv_ids st ! nat (dv_idx st - 1),
                 nav_state = \<lparr> ns_ids = Some (dv_ids st), ns_index = Some (dv_idx st - 1),
                               ns_from = ns_from passed, ns_beans = ns_beans passed \<rparr> \<rparr>)
   \<and> (canNext st \<longrightarrow>
        goNext passed st =
          Some \<lparr> nav_to = js ''/detail/'' @ dv_ids st ! nat (dv_idx st + 1),
                 nav_state = \<lparr> ns_ids = Some (dv_ids st), ns_index = Some (dv_idx st + 1),
                               ns_from = ns_from passed, ns_beans = ns_beans passed \<rparr> \<rparr>)
   \<and> (canPrev st \<longrightarrow>
        (\<exists>nav. goPrev passed st = Some nav
           \<and> nav_state nav = \<lparr> ns_ids = Some (dv_ids st), ns_index = Some (dv_idx st - 1),
                               ns_from = ns_from passed, ns_beans = ns_beans passed \<rparr>))
   \<and> (\<not> canPrev st \<longrightarrow> goPrev passed st = None)
   \<and> (\<not> canNext st \<longrightarrow> goNext passed st = None)
   \<and> (ns_beans passed = Some (b # bs) \<longrightarrow>
        0 \<le> dv_idx (effect_A U i passed st)
        \<and> dv_idx (effect_A U i passed st) < int (length (dv_ids (effect_A U i passed st))))
   \<and> (n < length sorted_beans \<longrightarrow>
        ListView_link U sorted_beans n (sorted_beans ! n) =
          \<lparr> nav_to = js ''/detail/'' @ stableIds U sorted_beans ! n,
            nav_state = \<lparr> ns_ids = Some (stableIds U sorted_beans), ns_index = Some (int n),
                          ns_from = Some FromList, ns_beans = Some sorted_beans \<rparr> \<rparr>)"
proof (intro conjI impI)
  show "canPrev st \<longleftrightarrow> 0 < dv_idx st"
    by (simp add: canPrev_def)
next
  show "canNext st \<longleftrightarrow> 0 \<le> dv_idx st \<and> dv_idx st < int (length (dv_ids st)) - 1"
    by (simp add: canNext_def)
next
  assume a: "canPrev st \<and> dv_idx st \<le> int (length (dv_ids st))"
  then have "at_index (dv_ids st) (dv_idx st - 1) = Some (dv_ids st ! nat (dv_idx st - 1))"
    by (intro at_index_in_range) (simp_all add: canPrev_def)
  with a show "goPrev passed st =
          Some \<lparr> nav_to = js ''/detail/'' @ dv_ids st ! nat (dv_idx st - 1),
                 nav_state = \<lparr> ns_ids = Some (dv_ids st), ns_index = Some (dv_idx st - 1),
                               ns_from = ns_from passed, ns_beans = ns_beans passed \<rparr> \<rparr>"
    by (simp add: goPrev_def target_text_def)
next
  assume a: "canNext st"
  then have "at_index (dv_ids st) (dv_idx st + 1) = Some (dv_ids st ! nat (dv_idx st + 1))"
    by (intro at_index_in_range) (simp_all add: canNext_def)
  with a show "goNext passed st =
          Some \<lparr> nav_to = js ''/detail/'' @ dv_ids st ! nat (dv_idx st + 1),
                 nav_state = \<lparr> ns_ids = Some (dv_ids st), ns_index = Some (dv_idx st + 1),
                               ns_from = ns_from passed, ns_beans = ns_beans passed \<rparr> \<rparr>"
    by (simp add: goNext_def target_text_def)
next
  assume "canPrev st"
  then show "\<exists>nav. goPrev passed st = Some nav
           \<and> nav_state nav = \<lparr> ns_ids = Some (dv_ids st), ns_index = Some (dv_idx st - 1),
                               ns_from = ns_from passed, ns_beans = ns_beans passed \<rparr>"
    by (simp add: goPrev_def)
next
  assume "\<not> canPrev st"
  then show "goPrev passed st = None" by (simp add: goPrev_def)
next
  assume "\<not> canNext st"
  then show "goNext passed st = None" by (simp add: goNext_def)
next
  assume a: "ns_beans passed = Some (b # bs)"
  from effect_A_index_range [OF a, of U i st]
  show "0 \<le> dv_idx (effect_A U i passed st)" by simp
  from effect_A_index_range [OF a, of U i st]
  show "dv_idx (effect_A U i passed st) < int (length (dv_ids (effect_A U i passed st)))" by simp
next
  assume "n < length sorted_beans"
  then show "ListView_link U sorted_beans n (sorted_beans ! n) =
          \<lparr> nav_to = js ''/detail/'' @ stableIds U sorted_beans ! n,
            nav_state = \<lparr> ns_ids = Some (stableIds U sorted_beans), ns_index = Some (int n),
                          ns_from = Some FromList, ns_beans = Some sorted_beans \<rparr> \<rparr>"
    by (simp add: ListView_link_def stableIds_nth)
qed

theorem prev_next_spec_witness:
  "nav_to (ListView_link ascii_only five_beans 2 (five_beans ! 2)) = js ''/detail/c''
   \<and> canPrev (DetailView_effects ascii_only (js ''c'') (nav_state (ListView_link ascii_only five_beans 2 (five_beans ! 2)))
        (DetailView_init (nav_state (ListView_link ascii_only five_beans 2 (five_beans ! 2)))))
   \<and> canNext (DetailView_effects ascii_only (js ''c'') (nav_state (ListView_link ascii_only five_beans 2 (five_beans ! 2)))
        (DetailView_init (nav_state (ListView_link ascii_only five_beans 2 (five_beans ! 2)))))
   \<and> goPrev (nav_state (ListView_link ascii_only five_beans 2 (five_beans ! 2)))
        (DetailView_effects ascii_only (js ''c'') (nav_state (ListView_link ascii_only five_beans 2 (five_beans ! 2)))
          (DetailView_init (nav_state (ListView_link ascii_only five_beans 2 (five_beans ! 2)))))
      = Some \<lparr> nav_to = js ''/detail/b'',
               nav_state = \<lparr> ns_ids = Some [js ''a'', js ''b'', js ''c'', js ''d'', js ''e''], ns_index = Some 1,
                             ns_from = Some FromList, ns_beans = Some five_beans \<rparr> \<rparr>
   \<and> goNext (nav_state (ListView_link ascii_only five_beans 2 (five_beans ! 2)))
        (DetailView_effects ascii_only (js ''c'') (nav_state (ListView_link ascii_only five_beans 2 (five_beans ! 2)))
          (DetailView_init (nav_state (ListView_link ascii_only five_beans 2 (five_beans ! 2)))))
      = Some \<lparr> nav_to = js ''/detail/d'',
               nav_state = \<lparr> ns_ids = Some [js ''a'', js ''b'', js ''c'', js ''d'', js ''e''], ns_index = Some 3,
                             ns_from = Some FromList, ns_beans = Some five_beans \<rparr> \<rparr>
   \<and> goPrev no_state (DetailView_init no_state) = None
   \<and> goNext no_state (DetailView_init no_state) = None
   \<and> dv_idx (effect_A ascii_only (js ''e'') (nav_state (ListView_link ascii_only five_beans 2 (five_beans ! 2)))
        (DetailView_init no_state)) = 4"
proof -
  let ?link = "ListView_link ascii_only five_beans 2 (five_beans ! 2)"
  let ?passed = "nav_state ?link"
  let ?st = "DetailView_effects ascii_only (js ''c'') ?passed (DetailView_init ?passed)"
  have ids: "stableIds ascii_only five_beans = [js ''a'', js ''b'', js ''c'', js ''d'', js ''e'']"
    by (simp add: stableIds_def stableId_def five_beans_def plain_bean_def trim_def js_space_def)
  have n: "(2::nat) < length five_beans"
    by (simp add: five_beans_def)
  note lk = prev_next_spec [where U = ascii_only and sorted_beans = five_beans and n = 2]
  from lk n have link: "?link =
      \<lparr> nav_to = js ''/detail/'' @ stableIds ascii_only five_beans ! 2,
        nav_state = \<lparr> ns_ids = Some (stableIds ascii_only five_beans), ns_index = Some (int 2),
                      ns_from = Some FromList, ns_beans = Some five_beans \<rparr> \<rparr>"
    by blast
  then have to: "nav_to ?link = js ''/detail/c''"
    by (simp add: ids)
  have st: "dv_ids ?st = [js ''a'', js ''b'', js ''c'', js ''d'', js ''e''] \<and> dv_idx ?st = 2"
    by (simp add: DetailView_effects_def effect_A_def effect_B_start_def effect_C_start_def
        effect_D_def DetailView_init_def ListView_link_def has_beans_def Let_def
        stableIds_def stableId_def five_beans_def plain_bean_def trim_def js_space_def)
  have p: "ns_from ?passed = Some FromList \<and> ns_beans ?passed = Some five_beans"
    by (simp add: link)
  note th = prev_next_spec [where U = ascii_only and st = ?st and passed = ?passed]
  from th st have cp: "canPrev ?st" by simp
  from th st have cn: "canNext ?st" by simp
  from th cp st p have gp: "goPrev ?passed ?st =
      Some \<lparr> nav_to = js ''/detail/b'',
             nav_state = \<lparr> ns_ids = Some [js ''a'', js ''b'', js ''c'', js ''d'', js ''e''], ns_index = Some 1,
                           ns_from = Some FromList, ns_beans = Some five_beans \<rparr> \<rparr>"
    by simp
  from th cn st p have gn: "goNext ?passed ?st =
      Some \<lparr> nav_to = js ''/detail/d'',
             nav_state = \<lparr> ns_ids = Some [js ''a'', js ''b'', js ''c'', js ''d'', js ''e''], ns_index = Some 3,
                           ns_from = Some FromList, ns_beans = Some five_beans \<rparr> \<rparr>"
    by simp
  have i0: "dv_idx (DetailView_init no_state) = - 1"
    by (simp add: DetailView_init_def no_state_def)
  note th0 = prev_next_spec [where U = ascii_only and st = "DetailView_init no_state" and passed = no_state]
  from th0 i0 have np: "goPrev no_state (DetailView_init no_state) = None" by simp
  from th0 i0 have nn: "goNext no_state (DetailView_init no_state) = None" by simp
  have e4: "dv_idx (effect_A ascii_only (js ''e'') ?passed (DetailView_init no_state)) = 4"
    by (simp add: effect_A_def DetailView_init_def ListView_link_def no_state_def Let_def
        stableIds_def stableId_def five_beans_def plain_bean_def trim_def js_space_def)
  from to cp cn gp gn np nn e4 show ?thesis by (intro conjI)
qed

section \<open>A carried collection that does not hold the route id (C10)\<close>

lemma has_beans_Cons: "ns_beans passed = Some (b # bs) \<Longrightarrow> has_beans passed"
  by (simp add: has_beans_def)

lemma effect_A_no_match:
  assumes "ns_beans passed = Some (b # bs)" and "i \<notin> set (stableIds U (b # bs))"
  shows "effect_A U i passed st =
           st\<lparr> dv_ids := stableIds U (b # bs), dv_idx := 0, dv_bean := Some b,
               dv_loading := False, dv_error := None \<rparr>"
  using assms indexOf_absent [of i "stableIds U (b # bs)"]
  by (simp add: effect_A_def Let_def)

lemma effects_with_beans:
  assumes "ns_beans passed = Some (b # bs)"
  shows "DetailView_effects U i passed cl = effect_D i cl (effect_A U i passed cl)"
  using has_beans_Cons [OF assms]
  by (simp add: DetailView_effects_def effect_B_start_def effect_C_start_def)

lemma effect_D_frame:
  "dv_bean (effect_D i cl st) = dv_bean st \<and> dv_loading (effect_D i cl st) = dv_loading st
   \<and> dv_error (effect_D i cl st) = dv_error st \<and> dv_ids (effect_D i cl st) = dv_ids st
   \<and> dv_requests (effect_D i cl st) = dv_requests st"
  by (simp add: effect_D_def Let_def)

lemma effect_D_skip: "0 \<le> dv_idx cl \<Longrightarrow> effect_D i cl st = st"
  by (simp add: effect_D_def)

text \<open>
  C10. Let a navigation carry a non-empty record collection whose recomputed identifiers
  do not include the route id. After the effects of the render that follows, the record
  is the first one of the collection, loading has ended, there is no error, and no fetch
  was started: effects B and C return at their guard. The view shows that record, never
  \<open>Not found.\<close>. The index is 0 whenever the index of the rendered state is not negative,
  and every navigation state this program builds (the links of the List and Gallery
  views, Prev, Next) carries a non-negative index, which a fresh view takes as its index.
  Later renders start no fetch either and leave the state as it is.
\<close>

theorem carried_collection_no_match_spec:
  "(ns_beans passed = Some (b # bs) \<and> i \<notin> set (stableIds U (b # bs)) \<longrightarrow>
      dv_bean (DetailView_effects U i passed cl) = Some b
      \<and> dv_loading (DetailView_effects U i passed cl) = False
      \<and> dv_error (DetailView_effects U i passed cl) = None
      \<and> dv_ids (DetailView_effects U i passed cl) = stableIds U (b # bs)
      \<and> dv_requests (DetailView_effects U i passed cl) = dv_requests cl
      \<and> (\<exists>p n. DetailView_render (DetailView_effects U i passed cl) = DetailRecord b p n)
      \<and> DetailView_render (DetailView_effects U i passed cl) \<noteq> DetailMessage (js ''Not found.'')
      \<and> (0 \<le> dv_idx cl \<longrightarrow>
           dv_idx (DetailView_effects U i passed cl) = 0
           \<and> DetailView_render (DetailView_effects U i passed cl) = DetailRecord b False (bs \<noteq> [])
           \<and> DetailView_effects_again i passed cl (DetailView_effects U i passed cl)
               = DetailView_effects U i passed cl))
   \<and> (ns_index passed = Some k \<longrightarrow> dv_idx (DetailView_init passed) = k)
   \<and> ns_index (nav_state (ListView_link U xs m x)) = Some (int m)
   \<and> ns_index (nav_state (GalleryView_link U xs m x)) = Some (int m)
   \<and> (goPrev passed st = Some nav \<longrightarrow> (\<exists>j. ns_index (nav_state nav) = Some j \<and> 0 \<le> j))
   \<and> (goNext passed st = Some nav \<longrightarrow> (\<exists>j. ns_index (nav_state nav) = Some j \<and> 0 \<le> j))"
proof (intro conjI impI)
  assume a: "ns_beans passed = Some (b # bs) \<and> i \<notin> set (stableIds U (b # bs))"
  then have nb: "ns_beans passed = Some (b # bs)" and nm: "i \<notin> set (stableIds U (b # bs))"
    by simp_all
  let ?st = "DetailView_effects U i passed cl"
  have e: "?st = effect_D i cl (effect_A U i passed cl)"
    using nb by (rule effects_with_beans)
  note A = effect_A_no_match [OF nb nm, of cl]
  note D = effect_D_frame [of i cl "effect_A U i passed cl"]
  show 1: "dv_bean ?st = Some b" unfolding e using D A by simp
  show 2: "dv_loading ?st = False" unfolding e using D A by simp
  show 3: "dv_error ?st = None" unfolding e using D A by simp
  show 4: "dv_ids ?st = stableIds U (b # bs)" unfolding e using D A by simp
  show 5: "dv_requests ?st = dv_requests cl" unfolding e using D A by simp
  from 1 2 3 show "\<exists>p n. DetailView_render ?st = DetailRecord b p n"
    by (simp add: DetailView_render_def)
  from 1 2 3 show "DetailView_render ?st \<noteq> DetailMessage (js ''Not found.'')"
    by (simp add: DetailView_render_def)
  assume c: "0 \<le> dv_idx cl"
  then have e': "?st = effect_A U i passed cl"
    unfolding e by (rule effect_D_skip)
  show 6: "dv_idx ?st = 0" unfolding e' A by simp
  from 1 2 3 4 6 show "DetailView_render ?st = DetailRecord b False (bs \<noteq> [])"
    by (auto simp: DetailView_render_def canPrev_def canNext_def stableIds_length)
  from 6 have "effect_D i ?st ?st = ?st"
    by (simp add: effect_D_skip)
  moreover have "effect_C_start passed ?st ?st = ?st"
    using has_beans_Cons [OF nb] by (simp add: effect_C_start_def)
  moreover from 6 have "\<And>s. effect_D i ?st s = s"
    by (simp add: effect_D_skip)
  ultimately show "DetailView_effects_again i passed cl ?st = ?st"
    by (simp add: DetailView_effects_again_def)
next
  assume "ns_index passed = Some k"
  then show "dv_idx (DetailView_init passed) = k"
    by (simp add: DetailView_init_def)
next
  show "ns_index (nav_state (ListView_link U xs m x)) = Some (int m)"
    by (simp add: ListView_link_def)
next
  show "ns_index (nav_state (GalleryView_link U xs m x)) = Some (int m)"
    by (simp add: GalleryView_link_def)
next
  assume "goPrev passed st = Some nav"
  then show "\<exists>j. ns_index (nav_state nav) = Some j \<and> 0 \<le> j"
    by (auto simp: goPrev_def canPrev_def split: if_splits)
next
  assume "goNext passed st = Some nav"
  then show "\<exists>j. ns_index (nav_state nav) = Some j \<and> 0 \<le> j"
    by (auto simp: goNext_def canNext_def split: if_splits)
qed

theorem carried_collection_no_match_spec_witness:
  "DetailView_effects ascii_only (js ''zzz'')
     \<lparr> ns_ids = Some [js ''a'', js ''b'', js ''c'', js ''d'', js ''e''], ns_index = Some 3,
       ns_from = Some FromGallery, ns_beans = Some five_beans \<rparr>
     (DetailView_init
        \<lparr> ns_ids = Some [js ''a'', js ''b'', js ''c'', js ''d'', js ''e''], ns_index = Some 3,
          ns_from = Some FromGallery, ns_beans = Some five_beans \<rparr>)
   = \<lparr> dv_bean = Some (plain_bean ''a'' ''Apple''), dv_loading = False, dv_error = None,
       dv_ids = [js ''a'', js ''b'', js ''c'', js ''d'', js ''e''], dv_idx = 0, dv_requests = [] \<rparr>
   \<and> DetailView_render (DetailView_effects ascii_only (js ''zzz'')
     \<lparr> ns_ids = Some [js ''a'', js ''b'', js ''c'', js ''d'', js ''e''], ns_index = Some 3,
       ns_from = Some FromGallery, ns_beans = Some five_beans \<rparr>
     (DetailView_init
        \<lparr> ns_ids = Some [js ''a'', js ''b'', js ''c'', js ''d'', js ''e''], ns_index = Some 3,
          ns_from = Some FromGallery, ns_beans = Some five_beans \<rparr>))
   = DetailRecord (plain_bean ''a'' ''Apple'') False True
   \<and> goNext
       \<lparr> ns_ids = Some [js ''a'', js ''b'', js ''c'', js ''d'', js ''e''], ns_index = Some 3,
         ns_from = Some FromGallery, ns_beans = Some five_beans \<rparr>
       \<lparr> dv_bean = Some (plain_bean ''a'' ''Apple''), dv_loading = False, dv_error = None,
         dv_ids = [js ''a'', js ''b'', js ''c'', js ''d'', js ''e''], dv_idx = 0, dv_requests = [] \<rparr>
     = Some \<lparr> nav_to = js ''/detail/b'',
              nav_state = \<lparr> ns_ids = Some [js ''a'', js ''b'', js ''c'', js ''d'', js ''e''], ns_index = Some 1,
                            ns_from = Some FromGallery, ns_beans = Some five_beans \<rparr> \<rparr>"
proof -
  let ?passed = "\<lparr> ns_ids = Some [js ''a'', js ''b'', js ''c'', js ''d'', js ''e''], ns_index = Some 3,
       ns_from = Some FromGallery, ns_beans = Some five_beans \<rparr>"
  let ?cl = "DetailView_init ?passed"
  let ?st = "DetailView_effects ascii_only (js ''zzz'') ?passed ?cl"
  let ?bs = "[plain_bean ''b'' ''Banana'', plain_bean ''c'' ''Cherry'',
      plain_bean ''d'' ''Date'', plain_bean ''e'' ''Elderberry'']"
  have ids: "stableIds ascii_only (plain_bean ''a'' ''Apple'' # ?bs) = [js ''a'', js ''b'', js ''c'', js ''d'', js ''e'']"
    by (simp add: stableIds_def stableId_def plain_bean_def trim_def js_space_def)
  have nb: "ns_beans ?passed = Some (plain_bean ''a'' ''Apple'' # ?bs)"
    by (simp add: five_beans_def)
  have nm: "js ''zzz'' \<notin> set (stableIds ascii_only (plain_bean ''a'' ''Apple'' # ?bs))"
    unfolding ids by simp
  have cl: "dv_idx ?cl = 3 \<and> dv_requests ?cl = []"
    by (simp add: DetailView_init_def)
  note th = carried_collection_no_match_spec [where passed = ?passed and i = "js ''zzz''" and U = ascii_only
      and b = "plain_bean ''a'' ''Apple''" and bs = ?bs and cl = ?cl]
  from th nb nm cl have f: "dv_bean ?st = Some (plain_bean ''a'' ''Apple'')
      \<and> dv_loading ?st = False \<and> dv_error ?st = None
      \<and> dv_ids ?st = [js ''a'', js ''b'', js ''c'', js ''d'', js ''e''] \<and> dv_requests ?st = []
      \<and> dv_idx ?st = 0"
    unfolding ids by simp
  from th nb nm cl have r: "DetailView_render ?st = DetailRecord (plain_bean ''a'' ''Apple'') False True"
    by simp
  from f have "?st = \<lparr> dv_bean = Some (plain_bean ''a'' ''Apple''), dv_loading = False, dv_error = None,
       dv_ids = [js ''a'', js ''b'', js ''c'', js ''d'', js ''e''], dv_idx = 0, dv_requests = [] \<rparr>"
    by (cases ?st) simp
  moreover have "goNext ?passed
       \<lparr> dv_bean = Some (plain_bean ''a'' ''Apple''), dv_loading = False, dv_error = None,
         dv_ids = [js ''a'', js ''b'', js ''c'', js ''d'', js ''e''], dv_idx = 0, dv_requests = [] \<rparr>
     = Some \<lparr> nav_to = js ''/detail/b'',
              nav_state = \<lparr> ns_ids = Some [js ''a'', js ''b'', js ''c'', js ''d'', js ''e''], ns_index = Some 1,
                            ns_from = Some FromGallery, ns_beans = Some five_beans \<rparr> \<rparr>"
    by (simp add: goNext_def canNext_def at_index_def target_text_def)
  ultimately show ?thesis using r by (intro conjI)
qed

end
